theory Spec2Isabelle
  imports Complex_Main "HOL-Library.Log_Nat"
begin

section \<open>Python floats: rounding to the nearest double\<close>

text \<open>
  A Python float is an IEEE 754 binary64 number.  Every finite double is a rational, and a
  float operation returns the exact result rounded to the nearest double, ties to the even
  significand.  \<open>round_double\<close> is that rounding on the rationals: \<open>binade x\<close> is the
  exponent \<open>e\<close> with \<open>2^e \<le> x < 2^(e+1)\<close>, the spacing of the doubles there is
  \<open>2^(e-52)\<close>, and below \<open>2^(-1022)\<close> the spacing stays \<open>2^(-1074)\<close> (subnormal numbers).
  Infinities and NaN are not values of the model, and no operation modelled below
  overflows on double arguments.
\<close>

definition pow2 :: "int \<Rightarrow> rat" where
  "pow2 e = (if 0 \<le> e then 2 ^ nat e else 1 / 2 ^ nat (- e))"

definition binade :: "rat \<Rightarrow> int" where
  "binade x =
     (if 1 \<le> x then bitlen \<lfloor>x\<rfloor> - 1
      else - bitlen (\<lceil>1 / x\<rceil> - 1))"

definition round_half_even :: "rat \<Rightarrow> int" where
  "round_half_even x =
     (let f = \<lfloor>x\<rfloor>; r = x - of_int f
      in if r < 1 / 2 then f
         else if 1 / 2 < r then f + 1
         else if even f then f else f + 1)"

definition round_double :: "rat \<Rightarrow> rat" where
  "round_double x =
     (if x = 0 then 0
      else (let e = max (binade \<bar>x\<bar>) (- 1022);
                q = pow2 (e - 52)
            in of_int (round_half_even (x / q)) * q))"

text \<open>
  A Python number is an \<open>int\<close> or a \<open>float\<close>.  Arithmetic on two ints is exact; with a
  float operand the int is converted to a float and the result is rounded.  Comparisons
  are exact.  \<open>max(a, b)\<close> returns \<open>b\<close> only when \<open>b > a\<close>.
\<close>

datatype pynum = PyInt int | PyFloat rat

definition num_val :: "pynum \<Rightarrow> rat" where
  "num_val a = (case a of PyInt i \<Rightarrow> of_int i | PyFloat x \<Rightarrow> x)"

definition to_float :: "pynum \<Rightarrow> rat" where
  "to_float a = (case a of PyInt i \<Rightarrow> round_double (of_int i) | PyFloat x \<Rightarrow> x)"

definition py_add :: "pynum \<Rightarrow> pynum \<Rightarrow> pynum" where
  "py_add a b =
     (case (a, b) of
        (PyInt i, PyInt j) \<Rightarrow> PyInt (i + j)
      | _ \<Rightarrow> PyFloat (round_double (to_float a + to_float b)))"

definition py_sub :: "pynum \<Rightarrow> pynum \<Rightarrow> pynum" where
  "py_sub a b =
     (case (a, b) of
        (PyInt i, PyInt j) \<Rightarrow> PyInt (i - j)
      | _ \<Rightarrow> PyFloat (round_double (to_float a - to_float b)))"

definition py_max :: "pynum \<Rightarrow> pynum \<Rightarrow> pynum" where
  "py_max a b = (if num_val a < num_val b then b else a)"


section \<open>Common Python data: exceptions, bounded deques, the clock\<close>

text \<open>
  The admission-control core of trendspy is five Python classes.  A float is the rational
  it denotes, and every constant the code compares against (1.0, 1.5, 2.0, 3.0, 3600, 80,
  95, 5) is exact.  The quota analyzer and the config tuner round their float results with
  \<open>round_double\<close>; the float products of the rate limiter (multiplier times 0.8, the
  effective delay) are taken exactly.  Python integers are \<open>int\<close>.  An exception is a
  value of \<open>error\<close>.
\<close>

datatype error = ValueError | IndexError | ZeroDivisionError

text \<open>
  \<open>collections.deque(maxlen=n)\<close>: the constructor raises ValueError for a negative
  \<open>maxlen\<close>; \<open>append\<close> adds on the right and, when the length then exceeds \<open>maxlen\<close>,
  drops the leftmost element (so a deque of \<open>maxlen\<close> 0 stays empty).
\<close>

record 'a deque =
  maxlen :: nat
  items :: "'a list"

definition deque_new :: "int \<Rightarrow> error + 'a deque" where
  "deque_new n = (if n < 0 then Inl ValueError else Inr \<lparr>maxlen = nat n, items = []\<rparr>)"

definition deque_append :: "'a \<Rightarrow> 'a deque \<Rightarrow> 'a deque" where
  "deque_append x d =
     (let ys = items d @ [x]
      in d\<lparr>items := (if maxlen d < length ys then tl ys else ys)\<rparr>)"

definition deque_clear :: "'a deque \<Rightarrow> 'a deque" where
  "deque_clear d = d\<lparr>items := []\<rparr>"

text \<open>
  \<open>time.time()\<close>, \<open>datetime.now()\<close> and \<open>time.sleep\<close> act on a simulated clock, in
  seconds: a reading returns \<open>clock\<close>, sleeping \<open>d\<close> seconds advances it by \<open>d\<close> and is
  logged in \<open>slept\<close>.
\<close>

record clock_env =
  clock :: rat
  slept :: "rat list"

definition sleep :: "rat \<Rightarrow> clock_env \<Rightarrow> clock_env" where
  "sleep d e = e\<lparr>clock := clock e + d, slept := slept e @ [d]\<rparr>"

section \<open>rate\_limiter.py: AdaptiveRateLimiter\<close>

record limiter =
  requests_per_hour :: int
  base_delay :: rat
  emergency_threshold :: int
  emergency_multiplier :: int
  request_times :: "rat deque"
  consecutive_failures :: int
  emergency_mode :: bool
  last_request_time :: rat
  delay_multiplier :: rat

text \<open>\<open>__init__\<close>: the only statement that can raise is the construction of the deque.\<close>

definition limiter_init :: "int \<Rightarrow> rat \<Rightarrow> int \<Rightarrow> int \<Rightarrow> error + limiter" where
  "limiter_init rph bd et em =
     (case deque_new rph of
        Inl err \<Rightarrow> Inl err
      | Inr dq \<Rightarrow> Inr \<lparr>requests_per_hour = rph, base_delay = bd, emergency_threshold = et,
                       emergency_multiplier = em, request_times = dq,
                       consecutive_failures = 0, emergency_mode = False,
                       last_request_time = 0, delay_multiplier = 1\<rparr>)"

text \<open>
  \<open>_enforce_hourly_limit\<close>: the \<open>while\<close> loop pops timestamps older than one hour from
  the left; \<open>self.request_times[0]\<close> raises IndexError on an empty deque.  The result is
  the outcome, the clock and the limiter as the call leaves them (also when it raises).
\<close>

definition enforce_hourly_limit ::
  "clock_env \<Rightarrow> limiter \<Rightarrow> (error + unit) \<times> clock_env \<times> limiter" where
  "enforce_hourly_limit e s =
     (let now = clock e;
          one_hour_ago = now - 3600;
          s1 = s\<lparr>request_times :=
                   (request_times s)\<lparr>items := dropWhile (\<lambda>t. t < one_hour_ago)
                                                  (items (request_times s))\<rparr>\<rparr>
      in if requests_per_hour s1 \<le> int (length (items (request_times s1))) then
           (case items (request_times s1) of
              [] \<Rightarrow> (Inl IndexError, e, s1)
            | oldest # rest \<Rightarrow>
                (let wait_until = oldest + 3600;
                     wait_seconds = wait_until - now
                 in if 0 < wait_seconds then (Inr (), sleep (wait_seconds + 1) e, s1)
                    else (Inr (), e, s1)))
         else (Inr (), e, s1))"

text \<open>
  \<open>wait_if_needed\<close>: \<open>jitter\<close> is the value \<open>random.uniform\<close> returns (drawn from
  [0.75, 1.25] in emergency mode, from [0.85, 1.15] otherwise; it is read only when
  \<open>last_request_time > 0\<close>).
\<close>

definition wait_if_needed ::
  "rat \<Rightarrow> clock_env \<Rightarrow> limiter \<Rightarrow> (error + unit) \<times> clock_env \<times> limiter" where
  "wait_if_needed jitter e s =
     (let current_time = clock e;
          e1 = (if 0 < last_request_time s then
                  (let time_since_last = current_time - last_request_time s;
                       effective_delay0 = base_delay s * delay_multiplier s;
                       effective_delay1 = (if emergency_mode s
                                           then effective_delay0 * of_int (emergency_multiplier s)
                                           else effective_delay0);
                       effective_delay = effective_delay1 * jitter
                   in if time_since_last < effective_delay
                      then sleep (effective_delay - time_since_last) e
                      else e)
                else e)
      in case enforce_hourly_limit e1 s of
           (Inl err, e2, s2) \<Rightarrow> (Inl err, e2, s2)
         | (Inr u, e2, s2) \<Rightarrow>
             (Inr (), e2, s2\<lparr>last_request_time := clock e2,
                             request_times := deque_append (clock e2) (request_times s2)\<rparr>))"

definition record_success :: "limiter \<Rightarrow> limiter" where
  "record_success s =
     (let s1 = s\<lparr>consecutive_failures := 0\<rparr>;
          s2 = (if emergency_mode s1 then s1\<lparr>emergency_mode := False\<rparr> else s1)
      in if 1 < delay_multiplier s2
         then s2\<lparr>delay_multiplier := max 1 (delay_multiplier s2 * (8 / 10))\<rparr>
         else s2)"

definition record_failure :: "limiter \<Rightarrow> limiter" where
  "record_failure s =
     (let s1 = s\<lparr>consecutive_failures := consecutive_failures s + 1\<rparr>
      in if consecutive_failures s1 = 1 then s1\<lparr>delay_multiplier := 15 / 10\<rparr>
         else if consecutive_failures s1 = 2 then s1\<lparr>delay_multiplier := 2\<rparr>
         else if 3 \<le> consecutive_failures s1 \<and> \<not> emergency_mode s1
              then s1\<lparr>emergency_mode := True, delay_multiplier := 3\<rparr>
         else s1)"

text \<open>\<open>should_circuit_break\<close> and \<open>get_stats\<close> only read the limiter (and log); they
  return their value together with the limiter they leave behind.\<close>

definition should_circuit_break :: "limiter \<Rightarrow> bool \<times> limiter" where
  "should_circuit_break s =
     (let threshold = emergency_threshold s * 2;
          should_break = (threshold \<le> consecutive_failures s)
      in (should_break, s))"

record limiter_stats =
  requests_last_hour :: nat
  requests_per_hour_limit :: int
  utilization_pct :: rat
  stats_consecutive_failures :: int
  stats_emergency_mode :: bool
  stats_base_delay :: rat
  stats_delay_multiplier :: rat
  effective_delay :: rat
  circuit_breaker_threshold :: int

definition limiter_get_stats :: "limiter \<Rightarrow> (error + limiter_stats) \<times> limiter" where
  "limiter_get_stats s =
     (let effective_delay0 = base_delay s * delay_multiplier s;
          eff = (if emergency_mode s then effective_delay0 * of_int (emergency_multiplier s)
                 else effective_delay0);
          n = length (items (request_times s))
      in if requests_per_hour s = 0 then (Inl ZeroDivisionError, s)
         else (Inr \<lparr>requests_last_hour = n,
                    requests_per_hour_limit = requests_per_hour s,
                    utilization_pct = (of_nat n / of_int (requests_per_hour s)) * 100,
                    stats_consecutive_failures = consecutive_failures s,
                    stats_emergency_mode = emergency_mode s,
                    stats_base_delay = base_delay s,
                    stats_delay_multiplier = delay_multiplier s,
                    effective_delay = eff,
                    circuit_breaker_threshold = emergency_threshold s * 2\<rparr>, s))"

definition limiter_reset :: "limiter \<Rightarrow> limiter" where
  "limiter_reset s =
     s\<lparr>consecutive_failures := 0, emergency_mode := False, delay_multiplier := 1,
       request_times := deque_clear (request_times s)\<rparr>"

text \<open>A caller's use of one limiter is a sequence of method calls; a call of
  \<open>wait_if_needed\<close> comes with the clock reading at its start and with its jitter draw.\<close>

datatype limiter_op =
    Wait_if_needed rat rat
  | Record_success
  | Record_failure
  | Should_circuit_break
  | Get_stats
  | Reset

fun limiter_step :: "limiter \<Rightarrow> limiter_op \<Rightarrow> limiter" where
  "limiter_step s (Wait_if_needed t jitter) =
     snd (snd (wait_if_needed jitter \<lparr>clock = t, slept = []\<rparr> s))"
| "limiter_step s Record_success = record_success s"
| "limiter_step s Record_failure = record_failure s"
| "limiter_step s Should_circuit_break = snd (should_circuit_break s)"
| "limiter_step s Get_stats = snd (limiter_get_stats s)"
| "limiter_step s Reset = limiter_reset s"

definition limiter_run :: "limiter \<Rightarrow> limiter_op list \<Rightarrow> limiter" where
  "limiter_run s ops = foldl limiter_step s ops"

text \<open>\<open>AdaptiveRateLimiter()\<close> with the default arguments of \<open>__init__\<close>.\<close>

definition default_limiter :: limiter where
  "default_limiter =
     \<lparr>requests_per_hour = 200, base_delay = 15, emergency_threshold = 5,
      emergency_multiplier = 3, request_times = \<lparr>maxlen = 200, items = []\<rparr>,
      consecutive_failures = 0, emergency_mode = False,
      last_request_time = 0, delay_multiplier = 1\<rparr>"

text \<open>The invariant of the specification is not inductive by itself: emergency mode is
  entered only with at least three failures counted, and that is what keeps the next
  \<open>record_failure\<close> from lowering the multiplier.\<close>

definition limiter_inv :: "limiter \<Rightarrow> bool" where
  "limiter_inv s \<longleftrightarrow>
     1 \<le> delay_multiplier s \<and>
     (emergency_mode s \<longrightarrow> 3 \<le> delay_multiplier s \<and> 3 \<le> consecutive_failures s)"

section \<open>degradation\_manager.py: DegradationManager\<close>

datatype HealthState = HEALTHY | DEGRADED_MINOR | DEGRADED_MAJOR | RECOVERY

datatype Priority = LOW | MEDIUM | HIGH

record degradation_manager =
  minor_threshold :: int
  major_threshold :: int
  recovery_successes :: int
  health_state :: HealthState
  consecutive_429s :: int
  consecutive_successes :: int

definition degradation_init :: "int \<Rightarrow> int \<Rightarrow> int \<Rightarrow> degradation_manager" where
  "degradation_init minor major recovery =
     \<lparr>minor_threshold = minor, major_threshold = major, recovery_successes = recovery,
      health_state = HEALTHY, consecutive_429s = 0, consecutive_successes = 0\<rparr>"

definition update_health :: "bool \<Rightarrow> degradation_manager \<Rightarrow> degradation_manager" where
  "update_health got_429 s =
     (if got_429 then
        (let s1 = s\<lparr>consecutive_429s := consecutive_429s s + 1, consecutive_successes := 0\<rparr>
         in if major_threshold s1 \<le> consecutive_429s s1
              then s1\<lparr>health_state := DEGRADED_MAJOR\<rparr>
            else if minor_threshold s1 \<le> consecutive_429s s1
              then s1\<lparr>health_state := DEGRADED_MINOR\<rparr>
            else s1)
      else
        (let s1 = s\<lparr>consecutive_successes := consecutive_successes s + 1\<rparr>;
             s2 = (if 0 < consecutive_429s s1
                   then s1\<lparr>consecutive_429s := max 0 (consecutive_429s s1 - 1)\<rparr>
                   else s1)
         in if recovery_successes s2 \<le> consecutive_successes s2 then
              (let s3 = (if health_state s2 \<noteq> HEALTHY
                         then s2\<lparr>health_state := RECOVERY\<rparr> else s2)
               in if recovery_successes s3 * 2 \<le> consecutive_successes s3
                  then s3\<lparr>health_state := HEALTHY, consecutive_429s := 0\<rparr>
                  else s3)
            else s2))"

text \<open>\<open>should_process_keyword\<close> reads the manager only.  The final \<open>return False\<close> of the
  source is kept; no value of the enumeration reaches it.\<close>

definition should_process_keyword :: "Priority \<Rightarrow> degradation_manager \<Rightarrow> bool" where
  "should_process_keyword keyword_priority s =
     (if health_state s = HEALTHY then True
      else if health_state s = RECOVERY then True
      else if health_state s = DEGRADED_MINOR then keyword_priority \<in> set [HIGH, MEDIUM]
      else if health_state s = DEGRADED_MAJOR then keyword_priority = HIGH
      else False)"

definition degradation_reset :: "degradation_manager \<Rightarrow> degradation_manager" where
  "degradation_reset s =
     s\<lparr>health_state := HEALTHY, consecutive_429s := 0, consecutive_successes := 0\<rparr>"

text \<open>The calls that change a manager: \<open>update_health\<close> with either flag, and \<open>reset\<close>.\<close>

datatype degradation_op = Update_health bool | Reset_health

fun degradation_step :: "degradation_manager \<Rightarrow> degradation_op \<Rightarrow> degradation_manager" where
  "degradation_step s (Update_health got_429) = update_health got_429 s"
| "degradation_step s Reset_health = degradation_reset s"

definition degradation_run ::
  "degradation_manager \<Rightarrow> degradation_op list \<Rightarrow> degradation_manager" where
  "degradation_run s ops = foldl degradation_step s ops"

text \<open>What every reachable manager satisfies: the counters are not negative, and a
  degraded manager has counted fewer successes than \<open>recovery_successes\<close>.\<close>

definition degradation_inv :: "degradation_manager \<Rightarrow> bool" where
  "degradation_inv s \<longleftrightarrow>
     0 \<le> consecutive_429s s \<and> 0 \<le> consecutive_successes s \<and>
     (1 \<le> recovery_successes s \<and> health_state s \<in> {DEGRADED_MINOR, DEGRADED_MAJOR}
        \<longrightarrow> consecutive_successes s < recovery_successes s)"

section \<open>metrics.py: MetricsCollector, the response-time window\<close>

text \<open>
  Of the collector, \<open>get_p95_response_time\<close> reads only the bounded window
  \<open>metrics["response_times"]\<close>, to which \<open>record_request\<close> appends each response time.
  The index \<open>int(len(sorted_times) * 0.95)\<close> is the integer part of the product; the
  product is taken here in the rationals (the double nearest to 0.95 gives the same integer
  part at every window length that fits in memory).
\<close>

record metrics_collector =
  window_size :: int
  response_times :: "rat deque"

definition metrics_init :: "int \<Rightarrow> error + metrics_collector" where
  "metrics_init ws =
     (case deque_new ws of
        Inl err \<Rightarrow> Inl err
      | Inr dq \<Rightarrow> Inr \<lparr>window_size = ws, response_times = dq\<rparr>)"

definition get_p95_response_time :: "metrics_collector \<Rightarrow> rat" where
  "get_p95_response_time s =
     (if items (response_times s) = [] then 0
      else (let sorted_times = sort (items (response_times s));
                index = nat \<lfloor>of_nat (length sorted_times) * (95 / 100 :: rat)\<rfloor>
            in if index < length sorted_times then sorted_times ! index
               else last sorted_times))"

text \<open>The nearest-rank percentile in the specification's words: of \<open>n \<ge> 1\<close> values sorted
  ascending, the \<open>\<lceil>0.95 n\<rceil>\<close>-th smallest (counting from 1); 0 for no value.\<close>

definition nearest_rank_p95 :: "rat list \<Rightarrow> rat" where
  "nearest_rank_p95 xs =
     (if xs = [] then 0
      else sort xs ! (nat \<lceil>(95 / 100 :: rat) * of_nat (length xs)\<rceil> - 1))"

section \<open>config\_tuner.py: ConfigTuner\<close>

text \<open>
  A session record is the dictionary \<open>record_session\<close> appends to \<open>performance_history\<close>;
  its five keys are the fields below (prefixed, since the limiter has fields of the same
  names).  \<open>base_delay\<close> comes from the caller's configuration and is an int (the default
  15) or a float.  \<open>success_rate\<close> and \<open>response_time\<close> are floats (an int passed for
  them counts as the double of the same value).  \<open>auto_tune\<close> reads the history only.
  Its result is \<open>None\<close> or a dictionary of the new \<open>base_delay\<close> and a reason; the reason
  text embeds the average success rate, kept here as the argument of the reason.
\<close>

record session_record =
  session_base_delay :: pynum
  session_requests_per_hour :: pynum
  session_success_rate :: rat
  session_response_time :: rat
  session_requests_total :: int

record config_tuner =
  history_file :: string
  performance_history :: "session_record list"

datatype tuning_reason = Low_success_rate rat | High_success_rate rat

record adjustment =
  adjusted_base_delay :: pynum
  reason :: tuning_reason

text \<open>\<open>statistics.mean\<close> of a non-empty list of floats is the exact mean rounded to the
  nearest double (it raises on an empty list, which \<open>auto_tune\<close> never passes).
  \<open>last_n\<close> is the slice \<open>xs[-n:]\<close> for \<open>n > 0\<close>.\<close>

definition statistics_mean :: "rat list \<Rightarrow> rat" where
  "statistics_mean xs = round_double (sum_list xs / of_nat (length xs))"

definition last_n :: "nat \<Rightarrow> 'a list \<Rightarrow> 'a list" where
  "last_n n xs = drop (length xs - n) xs"

definition auto_tune :: "config_tuner \<Rightarrow> adjustment option" where
  "auto_tune t =
     (if length (performance_history t) < 5 then None
      else (let recent = last_n 10 (performance_history t);
                avg_success = statistics_mean (map session_success_rate recent);
                current_delay = session_base_delay (last recent)
            in if avg_success < 80 then
                 Some \<lparr>adjusted_base_delay = py_add current_delay (PyInt 2),
                       reason = Low_success_rate avg_success\<rparr>
               else if 95 < avg_success \<and> 5 < num_val current_delay then
                 Some \<lparr>adjusted_base_delay = py_max (PyInt 5) (py_sub current_delay (PyInt 1)),
                       reason = High_success_rate avg_success\<rparr>
               else None))"

text \<open>A session record with the given \<open>base_delay\<close> and \<open>success_rate\<close>.\<close>

definition session :: "pynum \<Rightarrow> rat \<Rightarrow> session_record" where
  "session d r = \<lparr>session_base_delay = d, session_requests_per_hour = PyInt 150,
      session_success_rate = r, session_response_time = 2, session_requests_total = 40\<rparr>"

section \<open>quota\_analyzer.py: QuotaAnalyzer\<close>

text \<open>
  The numpy functions \<open>detect_quota_window\<close> calls, on doubles.
  \<open>numpy.diff\<close> gives the differences of neighbours.
  \<open>numpy.linspace(start, stop, num)\<close> computes \<open>step = (stop - start) / (num - 1)\<close> and the
  points \<open>i * step + start\<close>, every operation rounded, and sets the last point to \<open>stop\<close>
  (when \<open>step\<close> underflows to 0 the points are \<open>(i / (num - 1)) * (stop - start) + start\<close>).
  \<open>numpy.histogram(a, bins=n)\<close> takes the minimum and the maximum of \<open>a\<close> as outer edges
  (0 and 1 for an empty \<open>a\<close>; moved apart by 0.5 on each side when they coincide), takes
  the \<open>n + 1\<close> bin edges from \<open>linspace\<close>, raises ValueError ("Too many bins for data
  range") unless the edges are strictly increasing, and counts for each bin the values
  from its left edge up to, but excluding, its right edge, the last bin including its right
  edge.  \<open>numpy.argmax\<close> is the index of the first occurrence of the maximum.
\<close>

definition np_diff :: "rat list \<Rightarrow> rat list" where
  "np_diff xs = map (\<lambda>(a, b). round_double (b - a)) (zip xs (tl xs))"

definition outer_edges :: "rat list \<Rightarrow> rat \<times> rat" where
  "outer_edges a =
     (case a of
        [] \<Rightarrow> (0, 1)
      | x # xs \<Rightarrow>
          (let first_edge = fold min xs x; last_edge = fold max xs x
           in if first_edge = last_edge
              then (round_double (first_edge - 1 / 2), round_double (last_edge + 1 / 2))
              else (first_edge, last_edge)))"

definition np_linspace :: "rat \<Rightarrow> rat \<Rightarrow> nat \<Rightarrow> rat list" where
  "np_linspace start stop num =
     (let divisor = num - 1;
          delta = round_double (stop - start);
          step = round_double (delta / of_nat divisor);
          y = map (\<lambda>i. if step = 0
                        then round_double (round_double (of_nat i / of_nat divisor) * delta)
                        else round_double (of_nat i * step)) [0..<num];
          y1 = map (\<lambda>v. round_double (v + start)) y
      in if 1 < num then butlast y1 @ [stop] else y1)"

definition np_histogram :: "rat list \<Rightarrow> nat \<Rightarrow> error + nat list \<times> rat list" where
  "np_histogram a bins =
     (let (first_edge, last_edge) = outer_edges a;
          bin_edges = np_linspace first_edge last_edge (bins + 1)
      in if list_ex (\<lambda>(l, r). r \<le> l) (zip (butlast bin_edges) (tl bin_edges))
         then Inl ValueError
         else Inr (map (\<lambda>j. length (filter (\<lambda>x. bin_edges ! j \<le> x \<and>
                                    (x < bin_edges ! (j + 1) \<or>
                                     (j = bins - 1 \<and> x = bin_edges ! (j + 1)))) a))
                       [0..<bins],
                   bin_edges))"

definition np_argmax :: "nat list \<Rightarrow> nat" where
  "np_argmax xs = length (takeWhile (\<lambda>x. x < fold max xs 0) xs)"

record quota_analyzer =
  history_size :: int
  success_timestamps :: "rat deque"
  failure_timestamps :: "rat deque"
  detected_window :: "rat option"

definition quota_init :: "int \<Rightarrow> error + quota_analyzer" where
  "quota_init hs =
     (case deque_new hs of
        Inl err \<Rightarrow> Inl err
      | Inr dq \<Rightarrow> Inr \<lparr>history_size = hs, success_timestamps = dq,
                       failure_timestamps = dq, detected_window = None\<rparr>)"

text \<open>\<open>record_result\<close>: without a timestamp the clock is read.\<close>

definition record_result ::
  "bool \<Rightarrow> rat option \<Rightarrow> clock_env \<Rightarrow> quota_analyzer \<Rightarrow> quota_analyzer" where
  "record_result success timestamp e s =
     (let ts = (case timestamp of None \<Rightarrow> clock e | Some t \<Rightarrow> t)
      in if success then s\<lparr>success_timestamps := deque_append ts (success_timestamps s)\<rparr>
         else s\<lparr>failure_timestamps := deque_append ts (failure_timestamps s)\<rparr>)"

text \<open>
  \<open>detect_quota_window\<close> returns the estimate, or \<open>None\<close>, and stores an estimate in
  \<open>detected_window\<close>.  The \<open>try\<close> block covers the histogram and the modal interval; any
  exception in it, here the ValueError of \<open>numpy.histogram\<close>, is caught and \<open>None\<close> is
  returned.
\<close>

definition detect_quota_window :: "quota_analyzer \<Rightarrow> rat option \<times> quota_analyzer" where
  "detect_quota_window s =
     (if length (items (success_timestamps s)) < 10 then (None, s)
      else (let timestamps = sort (items (success_timestamps s));
                deltas0 = np_diff timestamps;
                deltas = filter (\<lambda>d. d < 3600) deltas0
            in if length deltas < 5 then (None, s)
               else (case np_histogram deltas 20 of
                       Inl err \<Rightarrow> (None, s)
                     | Inr (hist, bins) \<Rightarrow>
                         (let modal_index = np_argmax hist;
                              modal_window =
                                round_double
                                  (round_double (bins ! modal_index + bins ! (modal_index + 1)) / 2)
                          in (Some modal_window, s\<lparr>detected_window := Some modal_window\<rparr>)))))"

text \<open>
  The specification's words for the estimate.  The deltas that count are the time
  differences (computed in doubles) between each success and the next, in time order, that
  are under one hour.  The 20 bins span the deltas from the smallest to the largest (from
  0.5 below to 0.5 above when all deltas are equal); bin \<open>j\<close> starts at the low end plus
  \<open>j\<close> widths, computed in doubles, and ends where the next bin starts, the last bin ending
  at and including the high end.  \<open>bin_population\<close> is the number of deltas in a bin and
  \<open>bin_centre\<close> the midpoint of a bin.  \<open>bins_distinct\<close> says that every bin ends after
  it starts.
\<close>

definition consecutive_deltas :: "rat list \<Rightarrow> rat list" where
  "consecutive_deltas ts =
     map (\<lambda>i. round_double (sort ts ! Suc i - sort ts ! i)) [0..<length ts - 1]"

definition success_deltas :: "quota_analyzer \<Rightarrow> rat list" where
  "success_deltas s =
     filter (\<lambda>d. d < 3600) (consecutive_deltas (items (success_timestamps s)))"

definition bin_low :: "rat list \<Rightarrow> rat" where
  "bin_low ds =
     (if Min (set ds) = Max (set ds) then round_double (Min (set ds) - 1 / 2) else Min (set ds))"

definition bin_high :: "rat list \<Rightarrow> rat" where
  "bin_high ds =
     (if Min (set ds) = Max (set ds) then round_double (Max (set ds) + 1 / 2) else Max (set ds))"

definition bin_width :: "rat list \<Rightarrow> rat" where
  "bin_width ds = round_double (round_double (bin_high ds - bin_low ds) / 20)"

definition bin_edge :: "rat list \<Rightarrow> nat \<Rightarrow> rat" where
  "bin_edge ds j =
     (if j = 20 then bin_high ds
      else if bin_width ds = 0
        then round_double
               (round_double (round_double (of_nat j / 20) * round_double (bin_high ds - bin_low ds))
                + bin_low ds)
      else round_double (round_double (of_nat j * bin_width ds) + bin_low ds))"

definition bins_distinct :: "rat list \<Rightarrow> bool" where
  "bins_distinct ds = list_all (\<lambda>j. bin_edge ds j < bin_edge ds (Suc j)) [0..<20]"

definition in_bin :: "rat list \<Rightarrow> nat \<Rightarrow> rat \<Rightarrow> bool" where
  "in_bin ds j d \<longleftrightarrow>
     bin_edge ds j \<le> d \<and>
     (d < bin_edge ds (j + 1) \<or> (j = 19 \<and> d = bin_edge ds (j + 1)))"

definition bin_population :: "rat list \<Rightarrow> nat \<Rightarrow> nat" where
  "bin_population ds j = length (filter (in_bin ds j) ds)"

definition bin_centre :: "rat list \<Rightarrow> nat \<Rightarrow> rat" where
  "bin_centre ds j = round_double (round_double (bin_edge ds j + bin_edge ds (j + 1)) / 2)"

text \<open>
  Successes at a fixed period.  \<open>periodic t0 p n\<close> are \<open>n\<close> timestamps exactly \<open>p\<close> apart;
  \<open>float_periodic t0 p n\<close> are the timestamps \<open>t0 + p * i\<close> as Python computes them from
  the floats \<open>t0\<close> and \<open>p\<close> and the int \<open>i\<close>.  \<open>QuotaAnalyzer()\<close> has the default
  \<open>history_size\<close>; \<open>record_successes\<close> records a run of successes with explicit timestamps.
\<close>

definition periodic :: "rat \<Rightarrow> rat \<Rightarrow> nat \<Rightarrow> rat list" where
  "periodic t0 p n = map (\<lambda>i. t0 + p * of_nat i) [0..<n]"

definition float_periodic :: "rat \<Rightarrow> rat \<Rightarrow> nat \<Rightarrow> rat list" where
  "float_periodic t0 p n =
     map (\<lambda>i. round_double (t0 + round_double (p * round_double (of_nat i)))) [0..<n]"

definition default_analyzer :: quota_analyzer where
  "default_analyzer =
     \<lparr>history_size = 1000, success_timestamps = \<lparr>maxlen = 1000, items = []\<rparr>,
      failure_timestamps = \<lparr>maxlen = 1000, items = []\<rparr>, detected_window = None\<rparr>"

definition record_successes :: "rat list \<Rightarrow> quota_analyzer \<Rightarrow> quota_analyzer" where
  "record_successes ts s =
     fold (\<lambda>t. record_result True (Some t) \<lparr>clock = t, slept = []\<rparr>) ts s"

section \<open>Evaluating the rounding\<close>

lemma floor_rat_numeral [simp]:
  "\<lfloor>(numeral a :: rat) / numeral b\<rfloor> = numeral a div numeral b"
  "\<lfloor>- ((numeral a :: rat) / numeral b)\<rfloor> = - numeral a div numeral b"
  "\<lfloor>(1 :: rat) / numeral b\<rfloor> = 1 div numeral b"
  "\<lfloor>- ((1 :: rat) / numeral b)\<rfloor> = - 1 div numeral b"
  using floor_divide_of_int_eq [of "numeral a" "numeral b", where ?'a = rat]
    floor_divide_of_int_eq [of "- numeral a" "numeral b", where ?'a = rat]
    floor_divide_of_int_eq [of 1 "numeral b", where ?'a = rat]
    floor_divide_of_int_eq [of "- 1" "numeral b", where ?'a = rat]
  by simp_all

lemma ceiling_rat_numeral [simp]:
  "\<lceil>(numeral a :: rat) / numeral b\<rceil> = - (- numeral a div numeral b)"
  "\<lceil>(1 :: rat) / numeral b\<rceil> = - (- 1 div numeral b)"
  using ceiling_divide_eq_div [of "numeral a" "numeral b", where ?'a = rat]
    ceiling_divide_eq_div [of 1 "numeral b", where ?'a = rat]
  by simp_all

lemmas fl_eval =
  round_double_def binade_def pow2_def round_half_even_def compute_bitlen Let_def

text \<open>Some doubles: 0.1, the tie between \<open>2^53\<close> and \<open>2^53 + 2\<close>, a subnormal.\<close>

lemma round_double_examples:
  "round_double (1 / 10) = 3602879701896397 / 36028797018963968"
  "round_double (- (1 / 10)) = - (3602879701896397 / 36028797018963968)"
  "round_double 300 = 300"
  "round_double (2 ^ 53 + 1) = 2 ^ 53"
  "round_double (2 ^ 53 + 3) = 2 ^ 53 + 4"
  "round_double (10003 / 10) = 4399365925057331 / 4398046511104"
  by (simp_all add: fl_eval)

text \<open>
  The rounding is to a nearest double: \<open>binade\<close> brackets its argument between two powers
  of two, and \<open>round_double x\<close> is a multiple of the spacing \<open>2^(e-52)\<close> that lies within
  half a spacing of \<open>x\<close>; of two nearest multiples the even one is taken.
\<close>

lemma pow2_pos: "0 < pow2 e"
  by (simp add: pow2_def)

lemma pow2_Suc: "pow2 (e + 1) = 2 * pow2 e"
proof (cases "0 \<le> e")
  case True
  then show ?thesis by (simp add: pow2_def nat_add_distrib)
next
  case False
  then have "nat (- e) = Suc (nat (- (e + 1)))" by simp
  then show ?thesis using False by (auto simp add: pow2_def)
qed

lemma binade_bounds:
  assumes "0 < x"
  shows "pow2 (binade x) \<le> x" and "x < pow2 (binade x + 1)"
proof -
  have "pow2 (binade x) \<le> x \<and> x < pow2 (binade x + 1)"
  proof (cases "1 \<le> x")
    case True
    let ?n = "\<lfloor>x\<rfloor>"
    from True have n: "0 < ?n" by simp
    from bitlen_bounds [OF n]
    have b: "2 ^ nat (bitlen ?n - 1) \<le> ?n" "?n < 2 ^ nat (bitlen ?n)" by simp_all
    have k: "1 \<le> bitlen ?n" using n by (simp add: bitlen_alt_def)
    have e: "binade x = bitlen ?n - 1" using True by (simp add: binade_def)
    have "(2::rat) ^ nat (bitlen ?n - 1) = of_int (2 ^ nat (bitlen ?n - 1))" by simp
    also have "\<dots> \<le> of_int ?n" using b(1) by (simp only: of_int_le_iff)
    also have "\<dots> \<le> x" by simp
    finally have lo: "pow2 (binade x) \<le> x" using k by (simp add: e pow2_def)
    have "?n + 1 \<le> 2 ^ nat (bitlen ?n)" using b(2) by simp
    then have "(of_int (?n + 1) :: rat) \<le> of_int (2 ^ nat (bitlen ?n))"
      by (simp only: of_int_le_iff)
    moreover have "x < of_int (?n + 1)" by simp linarith
    ultimately have "x < 2 ^ nat (bitlen ?n)" by simp
    then have hi: "x < pow2 (binade x + 1)" using k by (simp add: e pow2_def)
    from lo hi show ?thesis ..
  next
    case False
    with assms have x1: "x < 1" by simp
    let ?c = "\<lceil>1 / x\<rceil>"
    let ?m = "?c - 1"
    have y: "1 < 1 / x" using assms x1 by simp
    then have c: "2 \<le> ?c" by linarith
    then have m: "0 < ?m" by simp
    from bitlen_bounds [OF m]
    have b: "2 ^ nat (bitlen ?m - 1) \<le> ?m" "?m < 2 ^ nat (bitlen ?m)" by simp_all
    have k: "1 \<le> bitlen ?m" using m by (simp add: bitlen_alt_def)
    have e: "binade x = - bitlen ?m" using False by (simp add: binade_def)
    have "1 / x \<le> of_int ?c" by simp
    also have "(of_int ?c :: rat) \<le> of_int (2 ^ nat (bitlen ?m))"
      using b(2) by (simp only: of_int_le_iff)
    finally have "1 / x \<le> 2 ^ nat (bitlen ?m)" by simp
    then have "1 / 2 ^ nat (bitlen ?m) \<le> x"
      using assms by (simp add: field_simps)
    then have lo: "pow2 (binade x) \<le> x" using k by (simp add: e pow2_def)
    have "(of_int (2 ^ nat (bitlen ?m - 1)) :: rat) \<le> of_int ?m"
      using b(1) by (simp only: of_int_le_iff)
    also have "(of_int ?m :: rat) < 1 / x" by simp linarith
    finally have "2 ^ nat (bitlen ?m - 1) < 1 / x" by simp
    then have "x < 1 / 2 ^ nat (bitlen ?m - 1)"
      using assms by (simp add: field_simps)
    moreover have "pow2 (binade x + 1) = 1 / 2 ^ nat (bitlen ?m - 1)"
    proof (cases "bitlen ?m = 1")
      case True
      then show ?thesis by (simp add: e pow2_def)
    next
      case False
      with k have "1 < bitlen ?m" by simp
      then show ?thesis by (simp add: e pow2_def)
    qed
    ultimately have hi: "x < pow2 (binade x + 1)" by simp
    from lo hi show ?thesis ..
  qed
  then show "pow2 (binade x) \<le> x" and "x < pow2 (binade x + 1)" by simp_all
qed

lemma round_half_even_error: "\<bar>of_int (round_half_even x) - x\<bar> \<le> 1 / 2"
proof -
  have "of_int \<lfloor>x\<rfloor> \<le> x" "x < of_int \<lfloor>x\<rfloor> + 1" by linarith+
  then show ?thesis
    by (auto simp add: round_half_even_def Let_def abs_le_iff)
qed

lemma round_double_error:
  assumes "x \<noteq> 0"
  shows "\<bar>round_double x - x\<bar> \<le> pow2 (max (binade \<bar>x\<bar>) (- 1022) - 52) / 2"
proof -
  let ?q = "pow2 (max (binade \<bar>x\<bar>) (- 1022) - 52)"
  have q: "0 < ?q" by (rule pow2_pos)
  have "round_double x - x = (of_int (round_half_even (x / ?q)) - x / ?q) * ?q"
    using assms q by (simp add: round_double_def Let_def algebra_simps)
  then have "\<bar>round_double x - x\<bar> = \<bar>of_int (round_half_even (x / ?q)) - x / ?q\<bar> * ?q"
    using q by (simp add: abs_mult)
  also have "\<dots> \<le> (1 / 2) * ?q"
    using q round_half_even_error [of "x / ?q"] by (intro mult_right_mono) simp_all
  finally show ?thesis by simp
qed

lemma round_half_even_tie:
  "x - of_int \<lfloor>x\<rfloor> = 1 / 2 \<Longrightarrow> even (round_half_even x)"
  by (simp add: round_half_even_def Let_def)


section \<open>Rate limiter: escalation schedule and circuit breaker\<close>

lemma limiter_init_default: "limiter_init 200 15 5 3 = Inr default_limiter"
  by (simp add: limiter_init_def deque_new_def default_limiter_def)


lemma record_failure_fields [simp]:
  "requests_per_hour (record_failure s) = requests_per_hour s"
  "base_delay (record_failure s) = base_delay s"
  "emergency_threshold (record_failure s) = emergency_threshold s"
  "emergency_multiplier (record_failure s) = emergency_multiplier s"
  "request_times (record_failure s) = request_times s"
  "last_request_time (record_failure s) = last_request_time s"
  "consecutive_failures (record_failure s) = consecutive_failures s + 1"
  by (simp_all add: record_failure_def Let_def)

lemma failures_count:
  "consecutive_failures ((record_failure ^^ n) s) = consecutive_failures s + int n"
  by (induction n) simp_all

lemma failures_threshold:
  "emergency_threshold ((record_failure ^^ n) s) = emergency_threshold s"
  by (induction n) simp_all

lemma record_failure_step:
  "delay_multiplier (record_failure s) =
     (if consecutive_failures s = 0 then 15 / 10
      else if consecutive_failures s = 1 then 2
      else if 2 \<le> consecutive_failures s \<and> \<not> emergency_mode s then 3
      else delay_multiplier s)"
  "emergency_mode (record_failure s) =
     (if consecutive_failures s \<noteq> 0 \<and> consecutive_failures s \<noteq> 1
         \<and> 2 \<le> consecutive_failures s \<and> \<not> emergency_mode s
      then True else emergency_mode s)"
  by (simp_all add: record_failure_def Let_def)

lemma failures_schedule:
  assumes "consecutive_failures s = 0" "emergency_mode s = False"
  shows "n \<noteq> 0 \<Longrightarrow>
         delay_multiplier ((record_failure ^^ n) s) =
           (if n = 1 then 15 / 10 else if n = 2 then 2 else 3) \<and>
         emergency_mode ((record_failure ^^ n) s) = (3 \<le> n)"
proof (induction n)
  case 0
  then show ?case by simp
next
  case (Suc n)
  have cf: "consecutive_failures ((record_failure ^^ n) s) = int n"
    using assms(1) by (simp add: failures_count)
  show ?case
  proof (cases "n = 0")
    case True
    then show ?thesis using assms by (simp add: record_failure_step)
  next
    case False
    with Suc.IH have ih:
      "delay_multiplier ((record_failure ^^ n) s) =
         (if n = 1 then 15 / 10 else if n = 2 then 2 else 3)"
      "emergency_mode ((record_failure ^^ n) s) = (3 \<le> n)"
      by simp_all
    have "delay_multiplier (record_failure ((record_failure ^^ n) s)) =
            (if Suc n = 1 then 15 / 10 else if Suc n = 2 then 2 else 3)"
      using False by (simp add: record_failure_step(1) cf ih)
    moreover have "emergency_mode (record_failure ((record_failure ^^ n) s)) = (3 \<le> Suc n)"
      using False by (simp add: record_failure_step(2) cf ih) arith
    ultimately show ?thesis by simp
  qed
qed

text \<open>
  C1.  From the baseline (multiplier 1.0, no failures, no emergency mode), \<open>n\<close> calls of
  \<open>record_failure\<close> in a row leave \<open>consecutive_failures = n\<close>, the multiplier at 1.5, 2.0
  and 3.0 after the first, second and third call and at 3.0 after every later one, and
  emergency mode on from the third call onwards; a following \<open>record_success\<close> switches
  emergency mode off.
\<close>

theorem record_failure_escalation:
  assumes "delay_multiplier s = 1" "consecutive_failures s = 0" "emergency_mode s = False"
  shows "consecutive_failures ((record_failure ^^ n) s) = int n
       \<and> delay_multiplier ((record_failure ^^ n) s) =
           (if n = 0 then 1 else if n = 1 then 15 / 10 else if n = 2 then 2 else 3)
       \<and> emergency_mode ((record_failure ^^ n) s) = (3 \<le> n)
       \<and> emergency_mode (record_success ((record_failure ^^ n) s)) = False"
proof (cases "n = 0")
  case True
  then show ?thesis using assms by (simp add: record_success_def Let_def)
next
  case False
  then show ?thesis
    using failures_schedule [OF assms(2,3), of n] assms(2)
    by (simp add: failures_count record_success_def Let_def)
qed


theorem record_failure_escalation_witness:
  "delay_multiplier default_limiter = 1 \<and> consecutive_failures default_limiter = 0
   \<and> emergency_mode default_limiter = False
   \<and> consecutive_failures ((record_failure ^^ 4) default_limiter) = 4
   \<and> delay_multiplier ((record_failure ^^ 4) default_limiter) = 3
   \<and> emergency_mode ((record_failure ^^ 4) default_limiter) = True
   \<and> emergency_mode (record_success ((record_failure ^^ 4) default_limiter)) = False"
  using record_failure_escalation [of default_limiter 4]
  by (simp add: default_limiter_def)

text \<open>
  C2.  \<open>should_circuit_break\<close> returns true exactly when \<open>consecutive_failures\<close> is at
  least twice \<open>emergency_threshold\<close>, and leaves the limiter as it was; with a threshold of
  3 and no failure counted yet, it is false after 5 failures in a row and true after 6.
\<close>

theorem should_circuit_break_iff:
  "fst (should_circuit_break s) = (2 * emergency_threshold s \<le> consecutive_failures s)
   \<and> snd (should_circuit_break s) = s
   \<and> (consecutive_failures s = 0 \<and> emergency_threshold s = 3 \<longrightarrow>
        \<not> fst (should_circuit_break ((record_failure ^^ 5) s))
        \<and> fst (should_circuit_break ((record_failure ^^ 6) s)))"
  by (simp add: should_circuit_break_def Let_def failures_count failures_threshold mult.commute)

theorem should_circuit_break_iff_witness:
  "consecutive_failures (default_limiter\<lparr>emergency_threshold := 3\<rparr>) = 0
   \<and> emergency_threshold (default_limiter\<lparr>emergency_threshold := 3\<rparr>) = 3
   \<and> \<not> fst (should_circuit_break
              ((record_failure ^^ 5) (default_limiter\<lparr>emergency_threshold := 3\<rparr>)))
   \<and> fst (should_circuit_break
            ((record_failure ^^ 6) (default_limiter\<lparr>emergency_threshold := 3\<rparr>)))"
  using should_circuit_break_iff [of "default_limiter\<lparr>emergency_threshold := 3\<rparr>"]
  by (simp add: default_limiter_def)

section \<open>Rate limiter: the state invariant\<close>

lemma enforce_hourly_limit_fields:
  assumes "enforce_hourly_limit e s = (r, e', s')"
  shows "delay_multiplier s' = delay_multiplier s"
    and "emergency_mode s' = emergency_mode s"
    and "consecutive_failures s' = consecutive_failures s"
  using assms
  by (auto simp add: enforce_hourly_limit_def Let_def split: if_splits list.splits)

lemma wait_if_needed_fields:
  assumes "wait_if_needed jitter e s = (r, e', s')"
  shows "delay_multiplier s' = delay_multiplier s"
    and "emergency_mode s' = emergency_mode s"
    and "consecutive_failures s' = consecutive_failures s"
proof -
  obtain e1 where w: "wait_if_needed jitter e s =
      (case enforce_hourly_limit e1 s of
         (Inl err, e2, s2) \<Rightarrow> (Inl err, e2, s2)
       | (Inr u, e2, s2) \<Rightarrow>
           (Inr (), e2, s2\<lparr>last_request_time := clock e2,
                           request_times := deque_append (clock e2) (request_times s2)\<rparr>))"
    by (simp add: wait_if_needed_def Let_def)
  obtain r1 e2 s2 where h: "enforce_hourly_limit e1 s = (r1, e2, s2)"
    by (cases "enforce_hourly_limit e1 s") auto
  have s': "s' = s2 \<or> s' = s2\<lparr>last_request_time := clock e2,
                  request_times := deque_append (clock e2) (request_times s2)\<rparr>"
    using assms w h by (cases r1) auto
  from enforce_hourly_limit_fields [OF h] s'
  show "delay_multiplier s' = delay_multiplier s"
    and "emergency_mode s' = emergency_mode s"
    and "consecutive_failures s' = consecutive_failures s"
    by auto
qed

lemma limiter_step_inv: "limiter_inv s \<Longrightarrow> limiter_inv (limiter_step s op)"
proof (cases op)
  case (Wait_if_needed t jitter)
  obtain r e' s' where w: "wait_if_needed jitter \<lparr>clock = t, slept = []\<rparr> s = (r, e', s')"
    by (cases "wait_if_needed jitter \<lparr>clock = t, slept = []\<rparr> s") auto
  assume "limiter_inv s"
  with wait_if_needed_fields [OF w] show ?thesis
    using Wait_if_needed w by (simp add: limiter_inv_def)
next
  case Record_success
  assume "limiter_inv s"
  then show ?thesis using Record_success
    by (auto simp add: limiter_inv_def record_success_def Let_def)
next
  case Record_failure
  assume "limiter_inv s"
  then show ?thesis using Record_failure
    by (auto simp add: limiter_inv_def record_failure_def Let_def)
next
  case Should_circuit_break
  assume "limiter_inv s"
  then show ?thesis using Should_circuit_break
    by (simp add: should_circuit_break_def Let_def)
next
  case Get_stats
  assume "limiter_inv s"
  then show ?thesis using Get_stats
    by (simp add: limiter_get_stats_def Let_def)
next
  case Reset
  assume "limiter_inv s"
  then show ?thesis using Reset
    by (simp add: limiter_inv_def limiter_reset_def)
qed

lemma limiter_run_inv: "limiter_inv s \<Longrightarrow> limiter_inv (limiter_run s ops)"
  unfolding limiter_run_def
  by (induction ops arbitrary: s) (simp_all add: limiter_step_inv)

lemma limiter_init_inv: "limiter_init rph bd et em = Inr s \<Longrightarrow> limiter_inv s"
  by (auto simp add: limiter_init_def deque_new_def limiter_inv_def split: if_splits)

text \<open>
  C5.  In the limiter that \<open>__init__\<close> returns, and after any sequence of calls of
  \<open>wait_if_needed\<close> (at any clock reading, with any jitter), \<open>record_success\<close>,
  \<open>record_failure\<close>, \<open>should_circuit_break\<close>, \<open>get_stats\<close> and \<open>reset\<close> on it,
  \<open>delay_multiplier\<close> is at least 1.0, and at least 3.0 whenever \<open>emergency_mode\<close> is set.
\<close>

theorem limiter_invariant:
  assumes "limiter_init rph bd et em = Inr s0"
  shows "1 \<le> delay_multiplier (limiter_run s0 ops)
       \<and> (emergency_mode (limiter_run s0 ops) \<longrightarrow> 3 \<le> delay_multiplier (limiter_run s0 ops))"
  using limiter_run_inv [OF limiter_init_inv [OF assms], of ops]
  by (simp add: limiter_inv_def)

theorem limiter_invariant_witness:
  "limiter_init 200 15 5 3 = Inr default_limiter
   \<and> emergency_mode (limiter_run default_limiter
          [Record_failure, Record_failure, Record_failure, Wait_if_needed 1000 1, Get_stats])
   \<and> 3 \<le> delay_multiplier (limiter_run default_limiter
          [Record_failure, Record_failure, Record_failure, Wait_if_needed 1000 1, Get_stats])"
  using limiter_invariant [OF limiter_init_default,
      of "[Record_failure, Record_failure, Record_failure, Wait_if_needed 1000 1, Get_stats]"]
  by (simp add: limiter_init_default limiter_run_def default_limiter_def record_failure_def
      wait_if_needed_def enforce_hourly_limit_def limiter_get_stats_def deque_append_def Let_def)


section \<open>Rate limiter: the first call, and reset\<close>

lemma enforce_hourly_limit_empty:
  assumes "items (request_times s) = []" "1 \<le> requests_per_hour s"
  shows "enforce_hourly_limit e s = (Inr (), e, s)"
  using assms by (simp add: enforce_hourly_limit_def Let_def)

text \<open>
  C10 (as amended).  On a limiter fresh from \<open>__init__\<close> with \<open>requests_per_hour\<close> at least
  1, the first \<open>wait_if_needed\<close> returns without raising and without sleeping (the clock
  and the sleep log are as before), whatever the clock reading and the jitter; the limiter
  it leaves differs from the fresh one only in \<open>last_request_time\<close> and in the sliding
  window, which both hold the time of the call.
\<close>

theorem first_wait_returns_immediately:
  assumes "limiter_init rph bd et em = Inr s" "1 \<le> rph"
  shows "wait_if_needed jitter e s =
           (Inr (), e, s\<lparr>last_request_time := clock e,
                           request_times := (request_times s)\<lparr>items := [clock e]\<rparr>\<rparr>)"
proof -
  from assms have s: "s = \<lparr>requests_per_hour = rph, base_delay = bd, emergency_threshold = et,
                       emergency_multiplier = em, request_times = \<lparr>maxlen = nat rph, items = []\<rparr>,
                       consecutive_failures = 0, emergency_mode = False,
                       last_request_time = 0, delay_multiplier = 1\<rparr>"
    by (auto simp add: limiter_init_def deque_new_def split: if_splits)
  have h: "enforce_hourly_limit e s = (Inr (), e, s)"
    using assms(2) by (intro enforce_hourly_limit_empty) (simp_all add: s)
  have l: "last_request_time s = 0" by (simp add: s)
  have d: "deque_append (clock e) (request_times s) = (request_times s)\<lparr>items := [clock e]\<rparr>"
    using assms(2) by (simp add: s deque_append_def)
  show ?thesis
    by (simp add: wait_if_needed_def Let_def l h d)
qed

theorem first_wait_returns_immediately_witness:
  "limiter_init 200 15 5 3 = Inr default_limiter \<and> (1::int) \<le> 200
   \<and> wait_if_needed 1 \<lparr>clock = 1000, slept = []\<rparr> default_limiter =
       (Inr (), \<lparr>clock = 1000, slept = []\<rparr>,
        default_limiter\<lparr>last_request_time := 1000,
                         request_times := \<lparr>maxlen = 200, items = [1000]\<rparr>\<rparr>)"
  using first_wait_returns_immediately [OF limiter_init_default, of 1 "\<lparr>clock = 1000, slept = []\<rparr>"]
  by (simp add: limiter_init_default default_limiter_def)

text \<open>
  C10 as stated fails for \<open>AdaptiveRateLimiter(requests_per_hour=0)\<close>: the constructor
  succeeds, and the first \<open>wait_if_needed\<close> finds the empty window already "at capacity"
  and raises IndexError at \<open>self.request_times[0]\<close>.
\<close>

theorem first_wait_zero_quota_raises:
  "\<not> isl (limiter_init 0 15 5 3 :: error + limiter)
   \<and> fst (wait_if_needed 1 \<lparr>clock = 1000, slept = []\<rparr> (projr (limiter_init 0 15 5 3)))
       = Inl IndexError"
  by (simp add: limiter_init_def deque_new_def wait_if_needed_def enforce_hourly_limit_def Let_def)

text \<open>
  C8.  \<open>reset\<close> leaves \<open>last_request_time\<close> as it is.  A default limiter with
  \<open>base_delay = 15\<close> that admitted a request at time 1000 and is then reset makes the next
  \<open>wait_if_needed\<close>, called at time 1001 with jitter 1, sleep 14 seconds; a freshly
  constructed limiter with the same configuration does not sleep in that call.
\<close>

theorem reset_keeps_last_request_time:
  "last_request_time (limiter_reset (limiter_step default_limiter (Wait_if_needed 1000 1))) = 1000
   \<and> last_request_time default_limiter = 0
   \<and> slept (fst (snd (wait_if_needed 1 \<lparr>clock = 1001, slept = []\<rparr>
            (limiter_reset (limiter_step default_limiter (Wait_if_needed 1000 1)))))) = [14]
   \<and> slept (fst (snd (wait_if_needed 1 \<lparr>clock = 1001, slept = []\<rparr> default_limiter))) = []"
  by (simp add: default_limiter_def limiter_reset_def wait_if_needed_def enforce_hourly_limit_def
      deque_append_def deque_clear_def sleep_def Let_def)

section \<open>Degradation manager: degradation by rejections, admission\<close>

lemma update_health_config [simp]:
  "minor_threshold (update_health b s) = minor_threshold s"
  "major_threshold (update_health b s) = major_threshold s"
  "recovery_successes (update_health b s) = recovery_successes s"
  by (simp_all add: update_health_def Let_def)

lemma rejection_step:
  "consecutive_429s (update_health True s) = consecutive_429s s + 1"
  "consecutive_successes (update_health True s) = 0"
  "health_state (update_health True s) =
     (if major_threshold s \<le> consecutive_429s s + 1 then DEGRADED_MAJOR
      else if minor_threshold s \<le> consecutive_429s s + 1 then DEGRADED_MINOR
      else health_state s)"
  by (simp_all add: update_health_def Let_def)

lemma rejections_config [simp]:
  "minor_threshold ((update_health b ^^ k) s) = minor_threshold s"
  "major_threshold ((update_health b ^^ k) s) = major_threshold s"
  "recovery_successes ((update_health b ^^ k) s) = recovery_successes s"
  by (induction k) simp_all

lemma rejections_count:
  "consecutive_429s ((update_health True ^^ k) s) = consecutive_429s s + int k"
  by (induction k) (simp_all add: rejection_step)

lemma rejections_health:
  assumes "health_state s = HEALTHY" "consecutive_429s s = 0"
  shows "health_state ((update_health True ^^ k) s) =
           (if k = 0 then HEALTHY
            else if major_threshold s \<le> int k then DEGRADED_MAJOR
            else if minor_threshold s \<le> int k then DEGRADED_MINOR
            else HEALTHY)"
proof (induction k)
  case 0
  then show ?case using assms by simp
next
  case (Suc k)
  have c: "consecutive_429s ((update_health True ^^ k) s) = int k"
    using assms(2) by (simp add: rejections_count)
  have "health_state (update_health True ((update_health True ^^ k) s)) =
          (if major_threshold s \<le> int (Suc k) then DEGRADED_MAJOR
           else if minor_threshold s \<le> int (Suc k) then DEGRADED_MINOR
           else HEALTHY)"
    using Suc.IH by (simp add: rejection_step(3) c)
  then show ?case by simp
qed

text \<open>
  C3 (as amended).  A manager fresh from \<open>__init__\<close> is HEALTHY whatever its thresholds;
  after \<open>k \<ge> 1\<close> rejection updates in a row it is DEGRADED\_MAJOR if \<open>k\<close> has reached
  \<open>major_threshold\<close>, else DEGRADED\_MINOR if \<open>k\<close> has reached \<open>minor_threshold\<close>, else
  HEALTHY.  In every state \<open>should_process_keyword\<close> admits every priority in HEALTHY and
  RECOVERY, exactly HIGH and MEDIUM in DEGRADED\_MINOR, and exactly HIGH in DEGRADED\_MAJOR.
\<close>

theorem degradation_levels:
  "health_state ((update_health True ^^ k) (degradation_init m M r)) =
     (if k = 0 then HEALTHY
      else if M \<le> int k then DEGRADED_MAJOR
      else if m \<le> int k then DEGRADED_MINOR
      else HEALTHY)
   \<and> should_process_keyword p s =
       (health_state s = HEALTHY \<or> health_state s = RECOVERY
        \<or> (health_state s = DEGRADED_MINOR \<and> (p = HIGH \<or> p = MEDIUM))
        \<or> (health_state s = DEGRADED_MAJOR \<and> p = HIGH))"
proof -
  have "health_state (degradation_init m M r) = HEALTHY"
       "consecutive_429s (degradation_init m M r) = 0"
       "major_threshold (degradation_init m M r) = M"
       "minor_threshold (degradation_init m M r) = m"
    by (simp_all add: degradation_init_def)
  then have "health_state ((update_health True ^^ k) (degradation_init m M r)) =
     (if k = 0 then HEALTHY
      else if M \<le> int k then DEGRADED_MAJOR
      else if m \<le> int k then DEGRADED_MINOR
      else HEALTHY)"
    using rejections_health [of "degradation_init m M r" k] by simp
  moreover have "should_process_keyword p s =
       (health_state s = HEALTHY \<or> health_state s = RECOVERY
        \<or> (health_state s = DEGRADED_MINOR \<and> (p = HIGH \<or> p = MEDIUM))
        \<or> (health_state s = DEGRADED_MAJOR \<and> p = HIGH))"
    by (cases "health_state s") (auto simp add: should_process_keyword_def)
  ultimately show ?thesis by simp
qed

text \<open>
  C3 as stated fails before the first update when \<open>minor_threshold \<le> 0\<close>: with thresholds
  0 and 1 the claim puts the fresh manager (\<open>k = 0 \<ge> 0 = m\<close>) in DEGRADED\_MINOR, the
  constructor makes it HEALTHY, and LOW is admitted.
\<close>

theorem fresh_manager_is_healthy:
  "(0::int) < 1 \<and> \<not> (1::int) \<le> int 0 \<and> (0::int) \<le> int 0
   \<and> health_state ((update_health True ^^ 0) (degradation_init 0 1 3)) = HEALTHY
   \<and> health_state ((update_health True ^^ 0) (degradation_init 0 1 3)) \<noteq> DEGRADED_MINOR
   \<and> should_process_keyword LOW ((update_health True ^^ 0) (degradation_init 0 1 3))"
  by (simp add: degradation_init_def should_process_keyword_def)

theorem degradation_levels_witness:
  "health_state ((update_health True ^^ 5) (degradation_init 5 10 3)) = DEGRADED_MINOR
   \<and> \<not> should_process_keyword LOW ((update_health True ^^ 5) (degradation_init 5 10 3))
   \<and> should_process_keyword MEDIUM ((update_health True ^^ 5) (degradation_init 5 10 3))
   \<and> health_state ((update_health True ^^ 10) (degradation_init 5 10 3)) = DEGRADED_MAJOR
   \<and> \<not> should_process_keyword MEDIUM ((update_health True ^^ 10) (degradation_init 5 10 3))
   \<and> should_process_keyword HIGH ((update_health True ^^ 10) (degradation_init 5 10 3))"
  using degradation_levels [of 5 5 10 3 LOW "(update_health True ^^ 5) (degradation_init 5 10 3)"]
    degradation_levels [of 5 5 10 3 MEDIUM "(update_health True ^^ 5) (degradation_init 5 10 3)"]
    degradation_levels [of 10 5 10 3 MEDIUM "(update_health True ^^ 10) (degradation_init 5 10 3)"]
    degradation_levels [of 10 5 10 3 HIGH "(update_health True ^^ 10) (degradation_init 5 10 3)"]
  by simp

section \<open>Degradation manager: recovery by successes\<close>

lemma success_step:
  "consecutive_successes (update_health False s) = consecutive_successes s + 1"
  "consecutive_429s (update_health False s) =
     (if recovery_successes s \<le> consecutive_successes s + 1
         \<and> recovery_successes s * 2 \<le> consecutive_successes s + 1 then 0
      else if 0 < consecutive_429s s then max 0 (consecutive_429s s - 1)
      else consecutive_429s s)"
  "health_state (update_health False s) =
     (if recovery_successes s \<le> consecutive_successes s + 1 then
        (if recovery_successes s * 2 \<le> consecutive_successes s + 1 then HEALTHY
         else if health_state s \<noteq> HEALTHY then RECOVERY else HEALTHY)
      else health_state s)"
  by (simp_all add: update_health_def Let_def)

lemma successes_count:
  "consecutive_successes ((update_health False ^^ n) s) = consecutive_successes s + int n"
  by (induction n) (simp_all add: success_step)

lemma successes_health:
  assumes "health_state s \<noteq> HEALTHY"
  shows "health_state ((update_health False ^^ n) s) =
           (if n \<noteq> 0 \<and> recovery_successes s \<le> consecutive_successes s + int n then
              (if recovery_successes s * 2 \<le> consecutive_successes s + int n
               then HEALTHY else RECOVERY)
            else health_state s)"
proof (induction n)
  case 0
  then show ?case by simp
next
  case (Suc n)
  have c: "consecutive_successes ((update_health False ^^ n) s) = consecutive_successes s + int n"
    by (rule successes_count)
  have "health_state (update_health False ((update_health False ^^ n) s)) =
          (if recovery_successes s \<le> consecutive_successes s + int (Suc n) then
              (if recovery_successes s * 2 \<le> consecutive_successes s + int (Suc n)
               then HEALTHY else RECOVERY)
            else health_state s)"
    using Suc.IH assms by (simp add: success_step(3) c)
  then show ?case by simp
qed

lemma degradation_step_config [simp]:
  "recovery_successes (degradation_step s op) = recovery_successes s"
  by (cases op) (simp_all add: degradation_reset_def)

lemma degradation_step_inv:
  assumes "degradation_inv s"
  shows "degradation_inv (degradation_step s op)"
proof (cases op)
  case (Update_health b)
  show ?thesis
  proof (cases b)
    case True
    with Update_health assms show ?thesis
      by (simp add: degradation_inv_def rejection_step)
  next
    case False
    with Update_health assms show ?thesis
      by (auto simp add: degradation_inv_def success_step)
  qed
next
  case Reset_health
  then show ?thesis by (simp add: degradation_inv_def degradation_reset_def)
qed

lemma degradation_run_inv:
  "degradation_inv s \<Longrightarrow>
     degradation_inv (degradation_run s ops)
     \<and> recovery_successes (degradation_run s ops) = recovery_successes s"
  unfolding degradation_run_def
  by (induction ops arbitrary: s) (simp_all add: degradation_step_inv)

lemma degradation_init_inv: "degradation_inv (degradation_init m M r)"
  by (simp add: degradation_inv_def degradation_init_def)

text \<open>
  C4 (as amended).  In every state \<open>s\<close> that a manager fresh from \<open>__init__\<close> reaches by
  \<open>update_health\<close> and \<open>reset\<close> calls, a success update adds 1 to \<open>consecutive_successes\<close> and
  never raises \<open>consecutive_429s\<close> nor takes it below 0; it lowers \<open>consecutive_429s\<close> by at
  most 1, except in the update that completes full recovery (the success count reaching
  both \<open>recovery_successes\<close> and twice that), which sets it to 0 and the state to HEALTHY.
  With \<open>recovery_successes \<ge> 1\<close> and \<open>s\<close> degraded, \<open>recovery_successes\<close> successes in a row
  from \<open>s\<close> lead to RECOVERY, and twice as many to HEALTHY with \<open>consecutive_429s = 0\<close>.
\<close>

theorem success_recovery:
  assumes "s = degradation_run (degradation_init m M r) ops"
  shows "consecutive_successes (update_health False s) = consecutive_successes s + 1
       \<and> 0 \<le> consecutive_429s (update_health False s)
       \<and> consecutive_429s (update_health False s) \<le> consecutive_429s s
       \<and> (\<not> (r \<le> consecutive_successes s + 1 \<and> 2 * r \<le> consecutive_successes s + 1)
            \<longrightarrow> consecutive_429s s - 1 \<le> consecutive_429s (update_health False s))
       \<and> (r \<le> consecutive_successes s + 1 \<and> 2 * r \<le> consecutive_successes s + 1
            \<longrightarrow> consecutive_429s (update_health False s) = 0
                \<and> health_state (update_health False s) = HEALTHY)
       \<and> (1 \<le> r \<and> health_state s \<in> {DEGRADED_MINOR, DEGRADED_MAJOR}
            \<longrightarrow> health_state ((update_health False ^^ nat r) s) = RECOVERY
                \<and> health_state ((update_health False ^^ nat (2 * r)) s) = HEALTHY
                \<and> consecutive_429s ((update_health False ^^ nat (2 * r)) s) = 0)"
proof -
  have b: "0 \<le> consecutive_429s s" "0 \<le> consecutive_successes s"
    "1 \<le> recovery_successes s \<and> health_state s \<in> {DEGRADED_MINOR, DEGRADED_MAJOR}
       \<longrightarrow> consecutive_successes s < recovery_successes s"
    "recovery_successes s = r"
    using degradation_run_inv [OF degradation_init_inv, of m M r ops]
    unfolding assms degradation_inv_def by (auto simp add: degradation_init_def)
  have one: "consecutive_successes (update_health False s) = consecutive_successes s + 1"
    by (rule success_step(1))
  have two: "0 \<le> consecutive_429s (update_health False s)"
    using b(1) by (simp add: success_step(2))
  have three: "consecutive_429s (update_health False s) \<le> consecutive_429s s"
    using b(1) by (simp add: success_step(2))
  have four: "\<not> (r \<le> consecutive_successes s + 1 \<and> 2 * r \<le> consecutive_successes s + 1)
            \<longrightarrow> consecutive_429s s - 1 \<le> consecutive_429s (update_health False s)"
    using b(1) b(4) by (auto simp add: success_step(2))
  have five: "r \<le> consecutive_successes s + 1 \<and> 2 * r \<le> consecutive_successes s + 1
            \<longrightarrow> consecutive_429s (update_health False s) = 0
                \<and> health_state (update_health False s) = HEALTHY"
    using b(4) by (auto simp add: success_step)
  have six: "health_state ((update_health False ^^ nat r) s) = RECOVERY
                \<and> health_state ((update_health False ^^ nat (2 * r)) s) = HEALTHY
                \<and> consecutive_429s ((update_health False ^^ nat (2 * r)) s) = 0"
    if h: "1 \<le> r" "health_state s \<in> {DEGRADED_MINOR, DEGRADED_MAJOR}"
  proof -
    from h b have lt: "consecutive_successes s < r" by simp
    from h have ne: "health_state s \<noteq> HEALTHY" by auto
    have r1: "health_state ((update_health False ^^ nat r) s) = RECOVERY"
      using h(1) lt b(2) b(4) by (simp add: successes_health [OF ne])
    have r2: "health_state ((update_health False ^^ nat (2 * r)) s) = HEALTHY"
      using h(1) lt b(2) b(4) by (simp add: successes_health [OF ne])
    obtain k where k: "nat (2 * r) = Suc k" using h(1) by (cases "nat (2 * r)") auto
    have ck: "consecutive_successes ((update_health False ^^ k) s) = consecutive_successes s + int k"
      by (rule successes_count)
    have ik: "int k = 2 * r - 1" using k h(1) by linarith
    have "consecutive_429s (update_health False ((update_health False ^^ k) s)) = 0"
      using b(2) b(4) h(1) by (simp add: success_step(2) ck ik)
    then have r3: "consecutive_429s ((update_health False ^^ nat (2 * r)) s) = 0"
      by (simp add: k)
    from r1 r2 r3 show ?thesis by simp
  qed
  from one two three four five six show ?thesis by blast
qed

theorem success_recovery_witness:
  "health_state (degradation_run (degradation_init 5 10 3) (replicate 10 (Update_health True)))
     \<in> {DEGRADED_MINOR, DEGRADED_MAJOR}
   \<and> health_state ((update_health False ^^ 3)
        (degradation_run (degradation_init 5 10 3) (replicate 10 (Update_health True)))) = RECOVERY
   \<and> health_state ((update_health False ^^ 6)
        (degradation_run (degradation_init 5 10 3) (replicate 10 (Update_health True)))) = HEALTHY
   \<and> consecutive_429s ((update_health False ^^ 6)
        (degradation_run (degradation_init 5 10 3) (replicate 10 (Update_health True)))) = 0"
proof -
  have d: "health_state (degradation_run (degradation_init 5 10 3)
             (replicate 10 (Update_health True))) = DEGRADED_MAJOR"
    by (simp add: degradation_run_def degradation_init_def update_health_def Let_def
        eval_nat_numeral)
  show ?thesis
    using success_recovery [of "degradation_run (degradation_init 5 10 3)
        (replicate 10 (Update_health True))" 5 10 3 "replicate 10 (Update_health True)"] d
    by simp
qed

text \<open>
  C4 as stated fails at the update that completes full recovery: after 10 rejections and
  5 successes (thresholds 5 and 10, \<open>recovery_successes = 3\<close>) the rejection counter is 5,
  and the sixth success sets it to 0, a drop of 5.
\<close>

theorem full_recovery_zeroes_429s:
  "consecutive_429s ((update_health False ^^ 5)
       ((update_health True ^^ 10) (degradation_init 5 10 3))) = 5
   \<and> consecutive_429s (update_health False ((update_health False ^^ 5)
       ((update_health True ^^ 10) (degradation_init 5 10 3)))) = 0"
  by (simp add: degradation_init_def update_health_def Let_def eval_nat_numeral)


section \<open>Metrics recorder: the 95th-percentile response time\<close>

lemma p95_index: "nat \<lfloor>of_nat n * (95 / 100 :: rat)\<rfloor> = 19 * n div 20"
proof -
  have "of_nat n * (95 / 100 :: rat) = of_nat (19 * n) / of_nat 20" by simp
  then have "\<lfloor>of_nat n * (95 / 100 :: rat)\<rfloor> = int (19 * n div 20)"
    by (simp only: floor_divide_of_nat_eq)
  then show ?thesis by simp
qed

lemma p95_ceiling:
  "nat \<lceil>(95 / 100 :: rat) * of_nat n\<rceil> = (19 * n + 19) div 20"
proof -
  have e: "(95 / 100 :: rat) * of_nat n = of_int (int (19 * n)) / of_int 20" by simp
  have "\<lceil>(95 / 100 :: rat) * of_nat n\<rceil> = - ((- int (19 * n)) div 20)"
    unfolding e by (simp only: ceiling_divide_eq_div)
  also have "\<dots> = (int (19 * n) + 19) div 20" by linarith
  finally show ?thesis by linarith
qed

lemma p95_index_less: "xs \<noteq> [] \<Longrightarrow> 19 * length xs div 20 < length xs"
  by (cases xs) auto

lemma nearest_rank_index:
  assumes "\<not> 20 dvd n"
  shows "(19 * n + 19) div 20 - 1 = 19 * n div (20::nat)"
proof -
  define q where "q = 19 * n div 20"
  define r where "r = 19 * n mod 20"
  have "\<not> 20 dvd 19 * n"
  proof
    assume d: "20 dvd 19 * n"
    have "20 dvd 20 * n - 19 * n" using d by (intro dvd_diff_nat) simp_all
    then show False using assms by simp
  qed
  then have m: "0 < r" by (simp add: dvd_eq_mod_eq_0 r_def)
  have l: "r < 20" by (simp add: r_def)
  have e: "19 * n = 20 * q + r" by (simp add: q_def r_def)
  have "(19 * n + 19) div 20 = Suc q"
  proof (rule div_nat_eqI)
    show "20 * Suc q \<le> 19 * n + 19" using e m by simp
    show "19 * n + 19 < 20 * Suc (Suc q)" using e l by simp
  qed
  then show ?thesis by (simp add: q_def)
qed

text \<open>
  C9 (as amended).  With an empty window \<open>get_p95_response_time\<close> returns 0.  With \<open>n \<ge> 1\<close>
  retained response times it returns one of them, without interpolation: the value at
  0-based index \<open>\<lfloor>0.95 n\<rfloor>\<close> of the ascending order, that is the \<open>(\<lfloor>0.95 n\<rfloor> + 1)\<close>-th
  smallest.  This is the nearest-rank value (the \<open>\<lceil>0.95 n\<rceil>\<close>-th smallest) whenever \<open>n\<close>
  is not a multiple of 20.
\<close>

theorem p95_rank:
  "get_p95_response_time s =
     (if items (response_times s) = [] then 0
      else sort (items (response_times s)) ! (19 * length (items (response_times s)) div 20))
   \<and> (items (response_times s) \<noteq> [] \<longrightarrow>
        get_p95_response_time s \<in> set (items (response_times s)))
   \<and> (items (response_times s) \<noteq> [] \<and> \<not> 20 dvd length (items (response_times s)) \<longrightarrow>
        get_p95_response_time s = nearest_rank_p95 (items (response_times s)))"
proof -
  let ?xs = "items (response_times s)"
  have v: "get_p95_response_time s = (if ?xs = [] then 0 else sort ?xs ! (19 * length ?xs div 20))"
  proof -
    have idx: "nat \<lfloor>of_nat (length (sort ?xs)) * (95 / 100 :: rat)\<rfloor> = 19 * length ?xs div 20"
      by (simp only: p95_index length_sort)
    have "get_p95_response_time s =
            (if ?xs = [] then 0
             else if 19 * length ?xs div 20 < length (sort ?xs)
                  then sort ?xs ! (19 * length ?xs div 20) else last (sort ?xs))"
      by (simp only: get_p95_response_time_def Let_def idx)
    then show ?thesis using p95_index_less [of ?xs] by simp
  qed
  have m: "get_p95_response_time s \<in> set ?xs" if "?xs \<noteq> []"
  proof -
    have "sort ?xs ! (19 * length ?xs div 20) \<in> set (sort ?xs)"
      using p95_index_less [OF that] by (intro nth_mem) simp
    then show ?thesis using that by (simp add: v)
  qed
  have r: "get_p95_response_time s = nearest_rank_p95 ?xs" if "?xs \<noteq> []" "\<not> 20 dvd length ?xs"
  proof -
    have "nearest_rank_p95 ?xs = sort ?xs ! ((19 * length ?xs + 19) div 20 - 1)"
      using that(1) by (simp only: nearest_rank_p95_def p95_ceiling if_False)
    also have "\<dots> = sort ?xs ! (19 * length ?xs div 20)"
      by (simp only: nearest_rank_index [OF that(2)])
    finally show ?thesis using that(1) by (simp add: v)
  qed
  from v m r show ?thesis by blast
qed

theorem p95_rank_witness:
  "items (response_times \<lparr>window_size = 100,
            response_times = \<lparr>maxlen = 100, items = [3, 1, 2]\<rparr>\<rparr>) \<noteq> []
   \<and> \<not> 20 dvd length (items (response_times \<lparr>window_size = 100,
            response_times = \<lparr>maxlen = 100, items = [3, 1, 2]\<rparr>\<rparr>))
   \<and> get_p95_response_time \<lparr>window_size = 100,
            response_times = \<lparr>maxlen = 100, items = [3, 1, 2]\<rparr>\<rparr> = 3
   \<and> nearest_rank_p95 [3, 1, 2] = 3"
proof -
  let ?s = "\<lparr>window_size = 100, response_times = \<lparr>maxlen = 100, items = [3, 1, 2 :: rat]\<rparr>\<rparr>"
  have i: "items (response_times ?s) = [3, 1, 2]" by simp
  have l: "length [3, 1, 2 :: rat] = 3" by simp
  have n: "\<not> (20::nat) dvd 3" by simp
  have h: "items (response_times ?s) \<noteq> []"
    "\<not> 20 dvd length (items (response_times ?s))"
    by (simp_all only: i l n) simp_all
  have v: "sort [3, 1, 2 :: rat] ! (19 * 3 div 20) = 3" by simp
  from p95_rank [of ?s] have c1: "get_p95_response_time ?s =
      (if items (response_times ?s) = [] then 0
       else sort (items (response_times ?s)) ! (19 * length (items (response_times ?s)) div 20))"
    and c3: "items (response_times ?s) \<noteq> [] \<and> \<not> 20 dvd length (items (response_times ?s))
      \<longrightarrow> get_p95_response_time ?s = nearest_rank_p95 (items (response_times ?s))"
    by blast+
  from c3 h have e: "get_p95_response_time ?s = nearest_rank_p95 (items (response_times ?s))"
    by blast
  have "get_p95_response_time ?s = sort [3, 1, 2] ! (19 * 3 div 20)"
    using c1 h(1) by (simp only: i l if_False)
  then have g: "get_p95_response_time ?s = 3" by (simp only: v)
  from g e have "nearest_rank_p95 [3, 1, 2] = 3" by (simp only: i)
  with g h show ?thesis by (simp only: i simp_thms)
qed

lemma sort_1_to_20:
  "sort [1, 2, 3, 4, 5, 6, 7, 8, 9, 10, 11, 12, 13, 14, 15, 16, 17, 18, 19, 20 :: rat] =
     [1, 2, 3, 4, 5, 6, 7, 8, 9, 10, 11, 12, 13, 14, 15, 16, 17, 18, 19, 20]"
  by (intro sorted_sort_id) simp

text \<open>
  C9 as stated fails when the window length is a multiple of 20: of the 20 response times
  1, 2, ..., 20 the nearest-rank 95th percentile is the 19th smallest, 19, and
  \<open>get_p95_response_time\<close> returns the 20th, 20.
\<close>

theorem p95_not_nearest_rank:
  "get_p95_response_time \<lparr>window_size = 100, response_times = \<lparr>maxlen = 100,
       items = [1, 2, 3, 4, 5, 6, 7, 8, 9, 10, 11, 12, 13, 14, 15, 16, 17, 18, 19, 20]\<rparr>\<rparr> = 20
   \<and> nearest_rank_p95 [1, 2, 3, 4, 5, 6, 7, 8, 9, 10, 11, 12, 13, 14, 15, 16, 17, 18, 19, 20] = 19"
  by (simp add: get_p95_response_time_def nearest_rank_p95_def Let_def sort_1_to_20
      del: sort_key_simps)


section \<open>Quota analyzer: the modal interval\<close>

lemma fold_max_upper: "x \<in> set xs \<Longrightarrow> x \<le> fold max xs (b::nat)"
proof (induction xs arbitrary: b)
  case Nil
  then show ?case by simp
next
  case (Cons a xs)
  have mono: "b \<le> fold max xs b" for b :: nat
    by (induction xs arbitrary: b) (auto intro: order_trans [OF max.cobounded2])
  show ?case
  proof (cases "x = a")
    case True
    have "a \<le> max a b" by simp
    also have "\<dots> \<le> fold max xs (max a b)" by (rule mono)
    finally show ?thesis using True by simp
  next
    case False
    with Cons.prems have "x \<in> set xs" by simp
    then show ?thesis using Cons.IH by simp
  qed
qed

lemma fold_max_attained: "xs \<noteq> [] \<Longrightarrow> fold max xs (0::nat) \<in> set xs"
proof -
  assume ne: "xs \<noteq> []"
  have g: "fold max xs b = b \<or> fold max xs b \<in> set xs" for b :: nat
    by (induction xs arbitrary: b) (auto simp add: max_def)
  show ?thesis
  proof (cases "fold max xs 0 \<in> set xs")
    case True
    then show ?thesis .
  next
    case False
    with g [of 0] have z: "fold max xs 0 = 0" by simp
    from ne obtain x where x: "x \<in> set xs" by (cases xs) auto
    from fold_max_upper [OF x, of 0] z have "x = 0" by simp
    with x z show ?thesis by simp
  qed
qed

lemma takeWhile_stops:
  "x \<in> set xs \<Longrightarrow> \<not> P x \<Longrightarrow> length (takeWhile P xs) < length xs"
  by (induction xs) auto

lemma np_argmax_first_max:
  assumes "xs \<noteq> []"
  shows "np_argmax xs < length xs"
    and "i < length xs \<Longrightarrow> xs ! i \<le> xs ! np_argmax xs"
    and "i < np_argmax xs \<Longrightarrow> xs ! i < xs ! np_argmax xs"
proof -
  let ?m = "fold max xs 0"
  let ?P = "\<lambda>x. x < ?m"
  have "\<not> ?P ?m" by simp
  with fold_max_attained [OF assms] show l: "np_argmax xs < length xs"
    unfolding np_argmax_def by (intro takeWhile_stops)
  then have "\<not> ?P (xs ! np_argmax xs)"
    unfolding np_argmax_def by (rule nth_length_takeWhile)
  moreover have "xs ! np_argmax xs \<le> ?m"
    using l by (intro fold_max_upper nth_mem)
  ultimately have e: "xs ! np_argmax xs = ?m" by simp
  show "xs ! i \<le> xs ! np_argmax xs" if "i < length xs"
    using that by (simp only: e) (intro fold_max_upper nth_mem)
  show "xs ! i < xs ! np_argmax xs" if "i < np_argmax xs"
  proof -
    from that have i: "i < length (takeWhile ?P xs)" by (simp add: np_argmax_def)
    then have "takeWhile ?P xs ! i \<in> set (takeWhile ?P xs)" by (rule nth_mem)
    then have "?P (takeWhile ?P xs ! i)" by (rule set_takeWhileD [THEN conjunct2])
    then show ?thesis using i by (simp add: e takeWhile_nth)
  qed
qed

lemma quota_init_default: "quota_init 1000 = Inr default_analyzer"
  by (simp add: quota_init_def deque_new_def default_analyzer_def)

lemma record_successes_fit:
  "length (items (success_timestamps s)) + length ts \<le> maxlen (success_timestamps s) \<Longrightarrow>
     items (success_timestamps (record_successes ts s)) = items (success_timestamps s) @ ts"
  unfolding record_successes_def
proof (induction ts arbitrary: s)
  case Nil
  then show ?case by simp
next
  case (Cons t ts)
  let ?s = "record_result True (Some t) \<lparr>clock = t, slept = []\<rparr> s"
  have a: "items (success_timestamps ?s) = items (success_timestamps s) @ [t]"
    "maxlen (success_timestamps ?s) = maxlen (success_timestamps s)"
    using Cons.prems by (simp_all add: record_result_def deque_append_def Let_def)
  have "length (items (success_timestamps ?s)) + length ts \<le> maxlen (success_timestamps ?s)"
    using Cons.prems by (simp add: a)
  from Cons.IH [OF this] show ?case by (simp add: a)
qed

lemma periodic_sorted: "0 \<le> p \<Longrightarrow> sort (periodic t0 p n) = periodic t0 p n"
proof (rule sorted_sort_id)
  assume p: "0 \<le> p"
  have "sorted_wrt (\<lambda>i j. t0 + p * of_nat i \<le> t0 + p * of_nat j) [0..<n]"
    using p by (auto simp add: sorted_wrt_iff_nth_less intro!: mult_left_mono)
  then show "sorted (periodic t0 p n)"
    by (simp add: periodic_def sorted_map)
qed

lemma np_diff_nth:
  "length (np_diff xs) = length xs - 1"
  "i < length xs - 1 \<Longrightarrow> np_diff xs ! i = round_double (xs ! Suc i - xs ! i)"
  by (simp_all add: np_diff_def nth_tl)

lemma np_diff_consecutive: "np_diff (sort ts) = consecutive_deltas ts"
proof (rule nth_equalityI)
  show "length (np_diff (sort ts)) = length (consecutive_deltas ts)"
    by (simp add: np_diff_nth(1) consecutive_deltas_def)
next
  fix i assume "i < length (np_diff (sort ts))"
  then have i: "i < length ts - 1" by (simp add: np_diff_nth(1))
  then have "np_diff (sort ts) ! i = round_double (sort ts ! Suc i - sort ts ! i)"
    by (simp add: np_diff_nth(2))
  also have "\<dots> = consecutive_deltas ts ! i"
    using i by (simp add: consecutive_deltas_def del: upt_Suc)
  finally show "np_diff (sort ts) ! i = consecutive_deltas ts ! i" .
qed

lemma outer_edges_bins:
  assumes "ds \<noteq> []"
  shows "outer_edges ds = (bin_low ds, bin_high ds)"
proof -
  from assms obtain x xs where ds: "ds = x # xs" by (cases ds) auto
  have lo: "fold min xs x = Min (set ds)" and hi: "fold max xs x = Max (set ds)"
    by (simp_all only: ds Min.set_eq_fold Max.set_eq_fold)
  have "outer_edges ds =
      (let first_edge = fold min xs x; last_edge = fold max xs x
       in if first_edge = last_edge
          then (round_double (first_edge - 1 / 2), round_double (last_edge + 1 / 2))
          else (first_edge, last_edge))"
    by (simp add: outer_edges_def ds)
  then show ?thesis
    by (simp only: lo hi Let_def bin_low_def bin_high_def) simp
qed

lemma upt_21: "[0..<21] = [0..<20] @ [20::nat]"
proof -
  have "(21::nat) = Suc 20" by simp
  then show ?thesis by (simp only: upt_Suc_append le0)
qed

lemma np_linspace_bins:
  "np_linspace (bin_low ds) (bin_high ds) 21 = map (bin_edge ds) [0..<21]"
proof -
  let ?delta = "round_double (bin_high ds - bin_low ds)"
  let ?g = "\<lambda>i. round_double
      ((if bin_width ds = 0 then round_double (round_double (of_nat i / 20) * ?delta)
        else round_double (of_nat i * bin_width ds)) + bin_low ds)"
  have n: "of_nat (21 - 1) = (20 :: rat)" "(1::nat) < 21" by simp_all
  have w: "round_double (?delta / 20) = bin_width ds"
    by (simp add: bin_width_def)
  have "np_linspace (bin_low ds) (bin_high ds) 21 =
          butlast (map ?g [0..<21]) @ [bin_high ds]"
    by (simp only: np_linspace_def Let_def n w map_map comp_def if_True)
  also have "butlast (map ?g [0..<21]) = map ?g [0..<20]"
  proof -
    have "butlast [0..<21] = [0..<20]" by (simp only: upt_21 butlast_snoc)
    then show ?thesis by (simp only: map_butlast [symmetric])
  qed
  also have "map ?g [0..<20] = map (bin_edge ds) [0..<20]"
    by (rule map_cong [OF refl]) (simp add: bin_edge_def)
  also have "map (bin_edge ds) [0..<20] @ [bin_high ds] = map (bin_edge ds) [0..<21]"
  proof -
    have "bin_edge ds 20 = bin_high ds" by (simp add: bin_edge_def)
    then show ?thesis by (simp only: upt_21 map_append list.map)
  qed
  finally show ?thesis .
qed

lemma collapsed_edges:
  "list_ex (\<lambda>(l, r). r \<le> l)
     (zip (butlast (map (bin_edge ds) [0..<21])) (tl (map (bin_edge ds) [0..<21])))
   \<longleftrightarrow> \<not> bins_distinct ds"
proof -
  have b: "butlast (map (bin_edge ds) [0..<21]) = map (bin_edge ds) [0..<20]"
    by (simp only: upt_21 map_append list.map butlast_snoc)
  have "tl [0..<21] = map Suc [0..<20]"
    by (simp add: map_Suc_upt)
  then have t: "tl (map (bin_edge ds) [0..<21]) = map (\<lambda>j. bin_edge ds (Suc j)) [0..<20]"
    by (simp add: map_tl [symmetric] comp_def)
  have z: "zip (map (bin_edge ds) [0..<20]) (map (\<lambda>j. bin_edge ds (Suc j)) [0..<20]) =
      map (\<lambda>j. (bin_edge ds j, bin_edge ds (Suc j))) [0..<20]"
    by (simp add: zip_map_map zip_same_conv_map del: upt_Suc)
  show ?thesis
    by (simp only: b t z bins_distinct_def) (simp add: list_ex_iff list_all_iff not_less del: upt_Suc)
qed

lemma np_histogram_bins:
  assumes "ds \<noteq> []"
  shows "np_histogram ds 20 =
     (if bins_distinct ds
      then Inr (map (bin_population ds) [0..<20], map (bin_edge ds) [0..<21])
      else Inl ValueError)"
proof -
  let ?edges = "map (bin_edge ds) [0..<21]"
  have e: "?edges ! j = bin_edge ds j" if "j < 21" for j
    using that by (simp only: nth_map_upt) simp
  have h: "map (\<lambda>j. length (filter (\<lambda>x. ?edges ! j \<le> x \<and>
                  (x < ?edges ! (j + 1) \<or> (j = 20 - 1 \<and> x = ?edges ! (j + 1)))) ds)) [0..<20]
        = map (bin_population ds) [0..<20]"
  proof (rule map_cong [OF refl])
    fix j assume "j \<in> set [0..<20]"
    then have j: "j < 21" "j + 1 < 21" by simp_all
    show "length (filter (\<lambda>x. ?edges ! j \<le> x \<and>
             (x < ?edges ! (j + 1) \<or> (j = 20 - 1 \<and> x = ?edges ! (j + 1)))) ds)
          = bin_population ds j"
      by (simp only: e [OF j(1)] e [OF j(2)] bin_population_def in_bin_def [abs_def]) simp
  qed
  have n: "(20::nat) + 1 = 21" by simp
  show ?thesis
    by (simp only: np_histogram_def outer_edges_bins [OF assms] n np_linspace_bins Let_def
        prod.case collapsed_edges h if_not_P if_P split: if_splits) simp
qed

lemma success_deltas_code:
  "filter (\<lambda>d. d < 3600) (np_diff (sort (items (success_timestamps s)))) = success_deltas s"
  by (simp only: success_deltas_def np_diff_consecutive)

lemma detect_too_few:
  "length (items (success_timestamps s)) < 10 \<Longrightarrow> fst (detect_quota_window s) = None"
  "length (success_deltas s) < 5 \<Longrightarrow> fst (detect_quota_window s) = None"
  by (simp_all add: detect_quota_window_def Let_def success_deltas_code)

lemma detect_by_bins:
  assumes "10 \<le> length (items (success_timestamps s))" "5 \<le> length (success_deltas s)"
  shows "fst (detect_quota_window s) =
           (if bins_distinct (success_deltas s)
            then Some (bin_centre (success_deltas s)
                         (np_argmax (map (bin_population (success_deltas s)) [0..<20])))
            else None)"
proof -
  let ?ds = "success_deltas s"
  let ?m = "np_argmax (map (bin_population ?ds) [0..<20])"
  let ?edges = "map (bin_edge ?ds) [0..<21]"
  from assms(2) have ne: "?ds \<noteq> []" by auto
  have m: "?m < 20" using np_argmax_first_max(1) [of "map (bin_population ?ds) [0..<20]"] by simp
  have e: "?edges ! j = bin_edge ?ds j" if "j < 21" for j
    using that by (simp only: nth_map_upt) simp
  have c: "round_double (round_double (?edges ! ?m + ?edges ! (?m + 1)) / 2) = bin_centre ?ds ?m"
    using m by (simp add: e bin_centre_def)
  have d: "fst (detect_quota_window s) =
      (case np_histogram ?ds 20 of
         Inl err \<Rightarrow> None
       | Inr (hist, bins) \<Rightarrow>
           Some (round_double (round_double (bins ! np_argmax hist + bins ! (np_argmax hist + 1)) / 2)))"
    using assms
    by (simp add: detect_quota_window_def Let_def success_deltas_code
        split: sum.splits prod.splits)
  show ?thesis
  proof (cases "bins_distinct ?ds")
    case True
    then have "np_histogram ?ds 20 = Inr (map (bin_population ?ds) [0..<20], ?edges)"
      by (simp only: np_histogram_bins [OF ne] if_True)
    then have "fst (detect_quota_window s) =
        Some (round_double (round_double (?edges ! ?m + ?edges ! (?m + 1)) / 2))"
      by (simp only: d sum.case prod.case)
    then show ?thesis using True by (simp only: c if_True)
  next
    case False
    then have "np_histogram ?ds 20 = Inl ValueError"
      by (simp only: np_histogram_bins [OF ne] if_False)
    then have "fst (detect_quota_window s) = None"
      by (simp only: d sum.case)
    then show ?thesis using False by (simp only: if_False)
  qed
qed

lemma upt_20: "[0..<20] = [0, 1, 2, 3, 4, 5, 6, 7, 8, 9, 10, 11, 12, 13, 14, 15, 16, 17, 18, 19 :: nat]"
  by code_simp

text \<open>Deltas that are all 300: the bins run from 299.5 to 300.5.\<close>

lemma periodic_range:
  "bin_low (replicate 19 300) = 599 / 2"
  "bin_high (replicate 19 300) = 601 / 2"
  by (simp_all add: bin_low_def bin_high_def fl_eval)

lemma periodic_width: "bin_width (replicate 19 300) = 3602879701896397 / 72057594037927936"
  by (simp add: bin_width_def periodic_range fl_eval)

lemma periodic_edges:
  "bin_edge (replicate 19 300) 0 = 599 / 2"
  "bin_edge (replicate 19 300) (Suc 0) = 5269739329604813 / 17592186044416"
  "bin_edge (replicate 19 300) 2 = 2635309469453517 / 8796093022208"
  "bin_edge (replicate 19 300) 3 = 2635749274104627 / 8796093022208"
  "bin_edge (replicate 19 300) 4 = 5272378157511475 / 17592186044416"
  "bin_edge (replicate 19 300) 5 = 1199 / 4"
  "bin_edge (replicate 19 300) 6 = 5274137376115917 / 17592186044416"
  "bin_edge (replicate 19 300) 7 = 2637508492709069 / 8796093022208"
  "bin_edge (replicate 19 300) 8 = 2637948297360179 / 8796093022208"
  "bin_edge (replicate 19 300) 9 = 5276776204022579 / 17592186044416"
  "bin_edge (replicate 19 300) 10 = 300"
  "bin_edge (replicate 19 300) 11 = 5278535422627021 / 17592186044416"
  "bin_edge (replicate 19 300) 12 = 2639707515964621 / 8796093022208"
  "bin_edge (replicate 19 300) 13 = 2640147320615731 / 8796093022208"
  "bin_edge (replicate 19 300) 14 = 5281174250533683 / 17592186044416"
  "bin_edge (replicate 19 300) 15 = 1201 / 4"
  "bin_edge (replicate 19 300) 16 = 5282933469138125 / 17592186044416"
  "bin_edge (replicate 19 300) 17 = 2641906539220173 / 8796093022208"
  "bin_edge (replicate 19 300) 18 = 2642346343871283 / 8796093022208"
  "bin_edge (replicate 19 300) 19 = 5285572297044787 / 17592186044416"
  "bin_edge (replicate 19 300) 20 = 601 / 2"
  by (simp_all add: bin_edge_def periodic_range periodic_width fl_eval)

lemma periodic_distinct: "bins_distinct (replicate 19 300)"
  by (simp add: bins_distinct_def upt_20 periodic_edges numeral_2_eq_2 [symmetric])

lemma periodic_populations:
  "map (bin_population (replicate 19 300)) [0..<20] =
     [0, 0, 0, 0, 0, 0, 0, 0, 0, 0, 19, 0, 0, 0, 0, 0, 0, 0, 0, 0]"
  by (simp add: upt_20 bin_population_def in_bin_def periodic_edges numeral_2_eq_2 [symmetric])

lemma periodic_modal_bin:
  "np_argmax (map (bin_population (replicate 19 300)) [0..<20]) = 10"
  by (simp only: periodic_populations) (simp add: np_argmax_def)

lemma periodic_modal_centre: "bin_centre (replicate 19 300) 10 = 2639047808987955 / 8796093022208"
  by (simp add: bin_centre_def periodic_edges fl_eval)

lemma np_diff_periodic: "np_diff (periodic t0 p (Suc n)) = replicate n (round_double p)"
proof (rule nth_equalityI)
  show "length (np_diff (periodic t0 p (Suc n))) = length (replicate n (round_double p))"
    by (simp add: np_diff_nth(1) periodic_def)
next
  fix i assume "i < length (np_diff (periodic t0 p (Suc n)))"
  then have i: "i < n" by (simp add: np_diff_nth(1) periodic_def)
  then have "np_diff (periodic t0 p (Suc n)) ! i =
      round_double (periodic t0 p (Suc n) ! Suc i - periodic t0 p (Suc n) ! i)"
    by (simp add: np_diff_nth(2) periodic_def)
  also have "periodic t0 p (Suc n) ! Suc i - periodic t0 p (Suc n) ! i = p"
    using i by (simp add: periodic_def algebra_simps del: upt_Suc)
  finally show "np_diff (periodic t0 p (Suc n)) ! i = replicate n (round_double p) ! i"
    using i by simp
qed

lemma periodic_deltas:
  assumes "items (success_timestamps s) = periodic t0 300 20"
  shows "success_deltas s = replicate 19 300"
proof -
  have r: "round_double 300 = 300" by (simp add: fl_eval)
  have "np_diff (periodic t0 300 (Suc 19)) = replicate 19 (round_double 300)"
    by (rule np_diff_periodic)
  then have "np_diff (periodic t0 300 20) = replicate 19 300" by (simp add: r)
  then have "np_diff (sort (items (success_timestamps s))) = replicate 19 300"
    by (simp add: assms periodic_sorted)
  then show ?thesis
    by (simp add: success_deltas_code [symmetric])
qed

text \<open>The timestamps \<open>1000.3 + 300 * i\<close> in doubles: one delta is not 300.0, the deltas
  span four units in the last place, and the first two bin edges coincide.\<close>

lemma float_start_timestamps:
  "float_periodic (round_double (10003 / 10)) 300 20 =
     [4399365925057331 / 4398046511104, 5718779878388531 / 4398046511104,
      7038193831719731 / 4398046511104, 8357607785050931 / 4398046511104,
      2419255434595533 / 1099511627776, 2749108922928333 / 1099511627776,
      3078962411261133 / 1099511627776, 3408815899593933 / 1099511627776,
      3738669387926733 / 1099511627776, 4068522876259533 / 1099511627776,
      4398376364592333 / 1099511627776, 4728229852925133 / 1099511627776,
      5058083341257933 / 1099511627776, 5387936829590733 / 1099511627776,
      5717790317923533 / 1099511627776, 6047643806256333 / 1099511627776,
      6377497294589133 / 1099511627776, 6707350782921933 / 1099511627776,
      7037204271254733 / 1099511627776, 7367057759587533 / 1099511627776]"
  by (simp add: float_periodic_def upt_20 fl_eval)

lemma float_start_deltas:
  "np_diff (float_periodic (round_double (10003 / 10)) 300 20) =
     [300, 300, 300, 1319413953331201 / 4398046511104, 300, 300, 300, 300, 300, 300,
      300, 300, 300, 300, 300, 300, 300, 300, 300]"
  by (simp only: float_start_timestamps) (simp add: np_diff_def fl_eval)

lemma float_start_sorted:
  "sort (float_periodic (round_double (10003 / 10)) 300 20) =
     float_periodic (round_double (10003 / 10)) 300 20"
  by (rule sorted_sort_id) (simp add: float_start_timestamps)

lemma float_start_success_deltas:
  assumes "items (success_timestamps s) = float_periodic (round_double (10003 / 10)) 300 20"
  shows "success_deltas s =
     [300, 300, 300, 1319413953331201 / 4398046511104, 300, 300, 300, 300, 300, 300,
      300, 300, 300, 300, 300, 300, 300, 300, 300]"
  by (simp only: success_deltas_code [symmetric] assms float_start_sorted float_start_deltas)
    simp

lemma bins_distinct_first: "bins_distinct ds \<Longrightarrow> bin_edge ds 0 < bin_edge ds (Suc 0)"
  by (simp add: bins_distinct_def list_all_iff)

lemma float_start_collapse:
  "\<not> bins_distinct
     [300, 300, 300, 1319413953331201 / 4398046511104, 300, 300, 300, 300, 300, 300,
      300, 300, 300, 300, 300, 300, 300, 300, 300]"
proof
  let ?ds = "[300, 300, 300, 1319413953331201 / 4398046511104, 300, 300, 300, 300, 300, 300,
             300, 300, 300, 300, 300, 300, 300, 300, 300 :: rat]"
  assume "bins_distinct ?ds"
  then have "bin_edge ?ds 0 < bin_edge ?ds (Suc 0)" by (rule bins_distinct_first)
  moreover have l: "bin_low ?ds = 300" "bin_high ?ds = 1319413953331201 / 4398046511104"
    by (simp_all add: bin_low_def bin_high_def)
  have w: "bin_width ?ds = 3602879701896397 / 316912650057057350374175801344"
    by (simp only: bin_width_def l) (simp add: fl_eval)
  have "bin_edge ?ds 0 = 300" "bin_edge ?ds (Suc 0) = 300"
    by (simp_all only: bin_edge_def l w) (simp_all add: fl_eval)
  ultimately show False by simp
qed

lemma held_periodic:
  "items (success_timestamps (record_successes (periodic 1000 300 20) default_analyzer))
     = periodic 1000 300 20"
  "items (success_timestamps (record_successes (periodic 1000 300 9) default_analyzer))
     = periodic 1000 300 9"
  "items (success_timestamps
      (record_successes (float_periodic (round_double (10003 / 10)) 300 20) default_analyzer))
     = float_periodic (round_double (10003 / 10)) 300 20"
  using record_successes_fit [of default_analyzer "periodic 1000 300 20"]
    record_successes_fit [of default_analyzer "periodic 1000 300 9"]
    record_successes_fit [of default_analyzer
      "float_periodic (round_double (10003 / 10)) 300 20"]
  by (simp_all add: default_analyzer_def periodic_def float_periodic_def)

text \<open>
  C6 (as amended).  \<open>detect_quota_window\<close> returns no estimate when fewer than 10
  successes are held, when fewer than 5 deltas of consecutive successes are under one hour
  (a delta of one hour or more is discarded), or when the remaining deltas lie so close
  together that the 20 bins over them, computed in doubles, are not all distinct (then
  \<open>numpy.histogram\<close> raises and the error is caught).  Otherwise it sorts the remaining
  deltas into the 20 bins, of equal width up to rounding, and returns the centre of the
  first bin that no other bin exceeds in population.  For 20 successes whose timestamps are
  exactly 300 seconds apart, from any start time, the estimate is the double 300.025.
\<close>

theorem detect_quota_window_modal:
  "(length (items (success_timestamps s)) < 10 \<longrightarrow> fst (detect_quota_window s) = None)
   \<and> (length (success_deltas s) < 5 \<longrightarrow> fst (detect_quota_window s) = None)
   \<and> (\<not> bins_distinct (success_deltas s) \<longrightarrow> fst (detect_quota_window s) = None)
   \<and> (10 \<le> length (items (success_timestamps s)) \<and> 5 \<le> length (success_deltas s)
        \<and> bins_distinct (success_deltas s) \<longrightarrow>
        (\<exists>j<20. fst (detect_quota_window s) = Some (bin_centre (success_deltas s) j)
           \<and> (\<forall>i<20. bin_population (success_deltas s) i \<le> bin_population (success_deltas s) j)
           \<and> (\<forall>i<j. bin_population (success_deltas s) i < bin_population (success_deltas s) j)))
   \<and> (items (success_timestamps s) = periodic t0 300 20 \<longrightarrow>
        fst (detect_quota_window s) = Some (2639047808987955 / 8796093022208)
        \<and> \<bar>2639047808987955 / 8796093022208 - 300\<bar> \<le> (3 / 100 :: rat))"
proof -
  let ?ds = "success_deltas s"
  let ?hist = "map (bin_population ?ds) [0..<20]"
  let ?m = "np_argmax ?hist"
  have none1: "fst (detect_quota_window s) = None"
    if "length (items (success_timestamps s)) < 10"
    using that by (rule detect_too_few(1))
  have none2: "fst (detect_quota_window s) = None" if "length ?ds < 5"
    using that by (rule detect_too_few(2))
  have none3: "fst (detect_quota_window s) = None" if c: "\<not> bins_distinct ?ds"
  proof (cases "10 \<le> length (items (success_timestamps s)) \<and> 5 \<le> length ?ds")
    case True
    then show ?thesis using c by (simp only: detect_by_bins if_False)
  next
    case False
    then show ?thesis using none1 none2 by force
  qed
  have modal: "\<exists>j<20. fst (detect_quota_window s) = Some (bin_centre ?ds j)
           \<and> (\<forall>i<20. bin_population ?ds i \<le> bin_population ?ds j)
           \<and> (\<forall>i<j. bin_population ?ds i < bin_population ?ds j)"
    if h: "10 \<le> length (items (success_timestamps s))" "5 \<le> length ?ds"
      and dist: "bins_distinct ?ds"
  proof -
    have ne: "?hist \<noteq> []" by simp
    have m: "?m < 20" using np_argmax_first_max(1) [OF ne] by simp
    have n: "?hist ! i = bin_population ?ds i" if "i < 20" for i
      using that by (simp only: nth_map_upt) simp
    have a: "bin_population ?ds i \<le> bin_population ?ds ?m" if "i < 20" for i
      using np_argmax_first_max(2) [OF ne, of i] that m by (simp add: n del: upt_Suc)
    have b: "bin_population ?ds i < bin_population ?ds ?m" if "i < ?m" for i
    proof -
      from that m have "i < 20" by simp
      with np_argmax_first_max(3) [OF ne that] m show ?thesis by (simp only: n)
    qed
    have "fst (detect_quota_window s) = Some (bin_centre ?ds ?m)"
      using dist by (simp only: detect_by_bins [OF h] if_True)
    with m a b show ?thesis by blast
  qed
  have per: "fst (detect_quota_window s) = Some (2639047808987955 / 8796093022208)"
    if p: "items (success_timestamps s) = periodic t0 300 20"
  proof -
    have d: "?ds = replicate 19 300" using p by (rule periodic_deltas)
    have "10 \<le> length (items (success_timestamps s))" by (simp add: p periodic_def)
    moreover have "5 \<le> length ?ds" by (simp add: d)
    ultimately show ?thesis
      by (simp only: detect_by_bins d periodic_distinct periodic_modal_bin
          periodic_modal_centre if_True)
  qed
  have tol: "\<bar>2639047808987955 / 8796093022208 - 300\<bar> \<le> (3 / 100 :: rat)" by simp
  from none1 none2 none3 modal per tol show ?thesis by blast
qed

theorem detect_quota_window_modal_witness:
  "items (success_timestamps (record_successes (periodic 1000 300 20) default_analyzer))
     = periodic 1000 300 20
   \<and> fst (detect_quota_window (record_successes (periodic 1000 300 20) default_analyzer))
     = Some (2639047808987955 / 8796093022208)
   \<and> length (items (success_timestamps
        (record_successes (periodic 1000 300 9) default_analyzer))) < 10
   \<and> fst (detect_quota_window (record_successes (periodic 1000 300 9) default_analyzer))
     = None
   \<and> \<not> bins_distinct (success_deltas
        (record_successes (float_periodic (round_double (10003 / 10)) 300 20) default_analyzer))
   \<and> fst (detect_quota_window
        (record_successes (float_periodic (round_double (10003 / 10)) 300 20) default_analyzer))
     = None"
proof -
  have c: "length (periodic 1000 300 9) < 10" by (simp add: periodic_def)
  have n: "\<not> bins_distinct (success_deltas
        (record_successes (float_periodic (round_double (10003 / 10)) 300 20) default_analyzer))"
    by (simp only: float_start_success_deltas [OF held_periodic(3)] float_start_collapse)
      simp
  from detect_quota_window_modal
    [of "record_successes (periodic 1000 300 20) default_analyzer" 1000]
    detect_quota_window_modal
    [of "record_successes (periodic 1000 300 9) default_analyzer" 1000]
    detect_quota_window_modal
    [of "record_successes (float_periodic (round_double (10003 / 10)) 300 20) default_analyzer"
      1000]
    held_periodic c n
  show ?thesis by simp
qed

text \<open>
  C6 as stated fails for 20 successes recorded at \<open>1000.3 + 300 * i\<close> seconds: 20
  successes are held and all 19 deltas are under one hour, but the deltas are 300.0 and
  300.0000000000002, the histogram raises, and no estimate is returned.
\<close>

theorem float_periodic_no_estimate:
  "length (items (success_timestamps
      (record_successes (float_periodic (round_double (10003 / 10)) 300 20) default_analyzer)))
     = 20
   \<and> length (success_deltas
      (record_successes (float_periodic (round_double (10003 / 10)) 300 20) default_analyzer))
     = 19
   \<and> fst (detect_quota_window
      (record_successes (float_periodic (round_double (10003 / 10)) 300 20) default_analyzer))
     = None"
proof -
  let ?s = "record_successes (float_periodic (round_double (10003 / 10)) 300 20) default_analyzer"
  have l: "length (items (success_timestamps ?s)) = 20"
    by (simp only: held_periodic(3)) (simp add: float_periodic_def)
  have d: "length (success_deltas ?s) = 19"
    by (simp only: float_start_success_deltas [OF held_periodic(3)]) simp
  have n: "\<not> bins_distinct (success_deltas ?s)"
    by (simp only: float_start_success_deltas [OF held_periodic(3)] float_start_collapse)
      simp
  have "fst (detect_quota_window ?s) = None"
    using detect_by_bins [of ?s] l d n by simp
  with l d show ?thesis by simp
qed

section \<open>Config tuner: auto\_tune\<close>

lemma last_n_length: "length (last_n n xs) = min n (length xs)"
  by (simp add: last_n_def)

lemma last_n_sum:
  "sum_list (map f (last_n n xs)) = (sum_list (map f (take n (rev xs))) :: rat)"
proof -
  have "map f (take n (rev xs)) = rev (map f (last_n n xs))"
    by (simp add: last_n_def take_rev rev_map)
  then show ?thesis by (simp only: sum_list_rev)
qed

lemma last_n_last: "xs \<noteq> [] \<Longrightarrow> 0 < n \<Longrightarrow> last (last_n n xs) = last xs"
  by (simp add: last_n_def)

lemma py_add_2:
  "num_val (py_add d (PyInt 2)) =
     (case d of PyInt i \<Rightarrow> of_int i + 2 | PyFloat x \<Rightarrow> round_double (x + 2))"
proof -
  have "round_double 2 = 2" by (simp add: fl_eval)
  then show ?thesis
    by (cases d) (simp_all add: py_add_def num_val_def to_float_def)
qed

lemma py_sub_1:
  "num_val (py_sub d (PyInt 1)) =
     (case d of PyInt i \<Rightarrow> of_int i - 1 | PyFloat x \<Rightarrow> round_double (x - 1))"
proof -
  have "round_double 1 = 1" by (simp add: fl_eval)
  then show ?thesis
    by (cases d) (simp_all add: py_sub_def num_val_def to_float_def)
qed

lemma py_max_5: "num_val (py_max (PyInt 5) y) = max 5 (num_val y)"
  by (simp add: py_max_def num_val_def max_def)

text \<open>
  C7 (as amended).  \<open>auto_tune\<close> returns nothing for fewer than 5 recorded sessions.  Otherwise, with
  \<open>avg\<close> the mean of \<open>success_rate\<close> over the last 10 sessions (all of them when there are
  fewer), as \<open>statistics.mean\<close> returns it (the exact mean rounded to the nearest double),
  and \<open>d\<close> the \<open>base_delay\<close> of the most recent session: \<open>avg < 80\<close> recommends \<open>d + 2\<close>;
  else \<open>avg > 95\<close> with \<open>d > 5\<close> recommends \<open>max(5, d - 1)\<close>; else nothing is recommended.
  The sum and the difference are Python's: exact for an int \<open>d\<close>, rounded to the nearest
  double for a float \<open>d\<close>.
\<close>

theorem auto_tune_rule:
  "auto_tune t =
     (if length (performance_history t) < 5 then None
      else if round_double
                (sum_list (map session_success_rate (take 10 (rev (performance_history t))))
                   / of_nat (min 10 (length (performance_history t)))) < 80
        then Some \<lparr>adjusted_base_delay =
                     py_add (session_base_delay (last (performance_history t))) (PyInt 2),
                   reason = Low_success_rate (round_double
                     (sum_list (map session_success_rate (take 10 (rev (performance_history t))))
                        / of_nat (min 10 (length (performance_history t)))))\<rparr>
      else if 95 < round_double
                     (sum_list (map session_success_rate (take 10 (rev (performance_history t))))
                        / of_nat (min 10 (length (performance_history t))))
              \<and> 5 < num_val (session_base_delay (last (performance_history t)))
        then Some \<lparr>adjusted_base_delay =
                     py_max (PyInt 5)
                       (py_sub (session_base_delay (last (performance_history t))) (PyInt 1)),
                   reason = High_success_rate (round_double
                     (sum_list (map session_success_rate (take 10 (rev (performance_history t))))
                        / of_nat (min 10 (length (performance_history t)))))\<rparr>
      else None)
   \<and> num_val (py_add (session_base_delay (last (performance_history t))) (PyInt 2)) =
       (case session_base_delay (last (performance_history t)) of
          PyInt i \<Rightarrow> of_int i + 2 | PyFloat x \<Rightarrow> round_double (x + 2))
   \<and> num_val (py_max (PyInt 5)
         (py_sub (session_base_delay (last (performance_history t))) (PyInt 1))) =
       max 5 (case session_base_delay (last (performance_history t)) of
                PyInt i \<Rightarrow> of_int i - 1 | PyFloat x \<Rightarrow> round_double (x - 1))"
proof -
  have rule: "auto_tune t =
     (if length (performance_history t) < 5 then None
      else if round_double
                (sum_list (map session_success_rate (take 10 (rev (performance_history t))))
                   / of_nat (min 10 (length (performance_history t)))) < 80
        then Some \<lparr>adjusted_base_delay =
                     py_add (session_base_delay (last (performance_history t))) (PyInt 2),
                   reason = Low_success_rate (round_double
                     (sum_list (map session_success_rate (take 10 (rev (performance_history t))))
                        / of_nat (min 10 (length (performance_history t)))))\<rparr>
      else if 95 < round_double
                     (sum_list (map session_success_rate (take 10 (rev (performance_history t))))
                        / of_nat (min 10 (length (performance_history t))))
              \<and> 5 < num_val (session_base_delay (last (performance_history t)))
        then Some \<lparr>adjusted_base_delay =
                     py_max (PyInt 5)
                       (py_sub (session_base_delay (last (performance_history t))) (PyInt 1)),
                   reason = High_success_rate (round_double
                     (sum_list (map session_success_rate (take 10 (rev (performance_history t))))
                        / of_nat (min 10 (length (performance_history t)))))\<rparr>
      else None)"
  proof (cases "length (performance_history t) < 5")
    case True
    then show ?thesis by (simp add: auto_tune_def)
  next
    case False
    then have ne: "performance_history t \<noteq> []" by auto
    have a: "statistics_mean (map session_success_rate (last_n 10 (performance_history t))) =
        round_double
          (sum_list (map session_success_rate (take 10 (rev (performance_history t))))
             / of_nat (min 10 (length (performance_history t))))"
      by (simp only: statistics_mean_def last_n_sum length_map last_n_length)
    have d: "last (last_n 10 (performance_history t)) = last (performance_history t)"
      using ne by (simp add: last_n_last)
    show ?thesis using False
      by (simp only: auto_tune_def Let_def a d if_False)
  qed
  show ?thesis
    by (simp only: py_max_5 py_sub_1 py_add_2 rule [symmetric])
qed

text \<open>The three examples of the specification (ten sessions at 70 percent, ten at 99
  percent with \<open>base_delay = 10\<close>, ten that average 88 percent) and a float \<open>base_delay\<close>.\<close>

theorem auto_tune_rule_witness:
  "auto_tune \<lparr>history_file = ''h.json'',
       performance_history = replicate 10 (session (PyInt 15) 70)\<rparr>
     = Some \<lparr>adjusted_base_delay = PyInt 17, reason = Low_success_rate 70\<rparr>
   \<and> auto_tune \<lparr>history_file = ''h.json'',
       performance_history = replicate 10 (session (PyInt 10) 99)\<rparr>
     = Some \<lparr>adjusted_base_delay = PyInt 9, reason = High_success_rate 99\<rparr>
   \<and> auto_tune \<lparr>history_file = ''h.json'',
       performance_history = replicate 5 (session (PyInt 10) 80) @ replicate 5 (session (PyInt 10) 96)\<rparr>
     = None
   \<and> auto_tune \<lparr>history_file = ''h.json'',
       performance_history = replicate 5 (session (PyFloat (31 / 2)) 70)\<rparr>
     = Some \<lparr>adjusted_base_delay = PyFloat (35 / 2), reason = Low_success_rate 70\<rparr>"
proof -
  have r: "round_double 70 = 70" "round_double 99 = 99" "round_double 88 = 88"
    "round_double (35 / 2) = 35 / 2" "round_double 15 = 15" "round_double 2 = 2"
    by (simp_all add: fl_eval)
  show ?thesis
    using auto_tune_rule [of "\<lparr>history_file = ''h.json'',
        performance_history = replicate 10 (session (PyInt 15) 70)\<rparr>"]
      auto_tune_rule [of "\<lparr>history_file = ''h.json'',
        performance_history = replicate 10 (session (PyInt 10) 99)\<rparr>"]
      auto_tune_rule [of "\<lparr>history_file = ''h.json'',
        performance_history = replicate 5 (session (PyInt 10) 80) @ replicate 5 (session (PyInt 10) 96)\<rparr>"]
      auto_tune_rule [of "\<lparr>history_file = ''h.json'',
        performance_history = replicate 5 (session (PyFloat (31 / 2)) 70)\<rparr>"]
    by (simp add: eval_nat_numeral session_def r py_add_def py_sub_def py_max_def num_val_def
        to_float_def)
qed

text \<open>
  C7 as stated, with \<open>avg\<close> the exact mean, fails.  Five sessions are recorded with
  \<open>base_delay = 15\<close> and the success rates \<open>80.0, 80.0, 80.0, 80.0, 79.99999999999999\<close>; the
  last rate is the double \<open>80 - 1 / 2 ^ 46\<close>.  Their exact mean is below 80, so the claim has
  \<open>17\<close> recommended; \<open>statistics.mean\<close> returns the nearest double, \<open>80.0\<close>, the test
  \<open>avg_success < 80\<close> is false, and \<open>auto_tune\<close> returns nothing.
\<close>

theorem auto_tune_mean_rounds_to_80:
  "length (performance_history \<lparr>history_file = ''h.json'',
       performance_history = replicate 4 (session (PyInt 15) 80)
         @ [session (PyInt 15) (80 - 1 / 2 ^ 46)]\<rparr>) = 5
   \<and> round_double (80 - 1 / 2 ^ 46) = 80 - 1 / 2 ^ 46
   \<and> sum_list (map session_success_rate (replicate 4 (session (PyInt 15) 80)
         @ [session (PyInt 15) (80 - 1 / 2 ^ 46)])) / 5 < 80
   \<and> statistics_mean (map session_success_rate (replicate 4 (session (PyInt 15) 80)
         @ [session (PyInt 15) (80 - 1 / 2 ^ 46)])) = 80
   \<and> auto_tune \<lparr>history_file = ''h.json'',
       performance_history = replicate 4 (session (PyInt 15) 80)
         @ [session (PyInt 15) (80 - 1 / 2 ^ 46)]\<rparr> = None"
proof -
  have r: "round_double (28147497671065599 / 351843720888320) = 80"
    "round_double (5629499534213119 / 70368744177664) = 5629499534213119 / 70368744177664"
    by (simp_all add: fl_eval)
  show ?thesis
    by (simp add: eval_nat_numeral session_def r auto_tune_def statistics_mean_def last_n_def)
qed

end
